theory Spec2Isabelle
  imports Main "HOL-Library.AList" "HOL-Library.Sublist"
begin

section \<open>Python exceptions and results\<close>

text \<open>
  An exception is its class name and its message (\<open>str(e)\<close>). A call that may raise
  returns \<open>py_error + 'a\<close>, with \<open>Inl\<close> for the raised exception.
\<close>

datatype py_error = Raised (exc_class: string) (exc_msg: string)

definition bind_err :: "py_error + 'a \<Rightarrow> ('a \<Rightarrow> py_error + 'b) \<Rightarrow> py_error + 'b" where
  "bind_err r f = (case r of Inl e \<Rightarrow> Inl e | Inr x \<Rightarrow> f x)"

section \<open>Decimal text\<close>

definition digit_char :: "nat \<Rightarrow> char" where
  "digit_char n = ''0123456789'' ! (n mod 10)"

function str_nat :: "nat \<Rightarrow> string" where
  "str_nat n = (if n < 10 then [digit_char n] else str_nat (n div 10) @ [digit_char n])"
  by pat_completeness auto
termination
  by (relation "measure id") auto

declare str_nat.simps [simp del]

definition str_int :: "int \<Rightarrow> string" where
  "str_int i = (if i < 0 then CHR ''-'' # str_nat (nat (- i)) else str_nat (nat i))"

definition zfill :: "nat \<Rightarrow> string \<Rightarrow> string" where
  "zfill w s = replicate (w - length s) CHR ''0'' @ s"

section \<open>datetime and timedelta\<close>

text \<open>
  A naive \<open>datetime\<close> is kept as its proleptic Gregorian ordinal (\<open>toordinal()\<close>, day 1 is
  0001-01-01) and its time of day. Python defines the arithmetic with \<open>timedelta\<close> on
  exactly this representation; the calendar fields are recovered by \<open>ord2ymd\<close>.
\<close>

record datetime =
  ordinal :: int
  hour :: nat
  minute :: nat
  second :: nat
  microsecond :: nat

definition MAXORDINAL :: int where
  "MAXORDINAL = 3652059"

definition wf_datetime :: "datetime \<Rightarrow> bool" where
  "wf_datetime d \<longleftrightarrow> 0 < ordinal d \<and> ordinal d \<le> MAXORDINAL \<and> hour d < 24 \<and> minute d < 60
     \<and> second d < 60 \<and> microsecond d < 1000000"

definition is_leap :: "int \<Rightarrow> bool" where
  "is_leap y \<longleftrightarrow> y mod 4 = 0 \<and> (y mod 100 \<noteq> 0 \<or> y mod 400 = 0)"

definition DAYS_IN_MONTH :: "int list" where
  "DAYS_IN_MONTH = [0, 31, 28, 31, 30, 31, 30, 31, 31, 30, 31, 30, 31]"

definition DAYS_BEFORE_MONTH :: "int list" where
  "DAYS_BEFORE_MONTH = [0, 0, 31, 59, 90, 120, 151, 181, 212, 243, 273, 304, 334]"

definition days_before_year :: "int \<Rightarrow> int" where
  "days_before_year y = (let y0 = y - 1 in y0 * 365 + y0 div 4 - y0 div 100 + y0 div 400)"

definition days_in_month :: "int \<Rightarrow> nat \<Rightarrow> int" where
  "days_in_month y m = (if m = 2 \<and> is_leap y then 29 else DAYS_IN_MONTH ! m)"

definition days_before_month :: "int \<Rightarrow> nat \<Rightarrow> int" where
  "days_before_month y m = DAYS_BEFORE_MONTH ! m + (if m > 2 \<and> is_leap y then 1 else 0)"

definition ymd2ord :: "int \<Rightarrow> nat \<Rightarrow> int \<Rightarrow> int" where
  "ymd2ord y m d = days_before_year y + days_before_month y m + d"

definition ord2ymd :: "int \<Rightarrow> int \<times> nat \<times> int" where
  "ord2ymd n0 =
     (let n = n0 - 1;
          n400 = n div 146097; n = n mod 146097;
          n100 = n div 36524; n = n mod 36524;
          n4 = n div 1461; n = n mod 1461;
          n1 = n div 365; n = n mod 365;
          year = n400 * 400 + 1 + n100 * 100 + n4 * 4 + n1
      in if n1 = 4 \<or> n100 = 4 then (year - 1, 12, 31)
         else
           let leapyear = (n1 = 3 \<and> (n4 \<noteq> 24 \<or> n100 = 3));
               month = nat ((n + 50) div 32);
               preceding = DAYS_BEFORE_MONTH ! month + (if month > 2 \<and> leapyear then 1 else 0)
           in if preceding > n
              then let month' = month - 1;
                       preceding' = preceding
                         - (DAYS_IN_MONTH ! month' + (if month' = 2 \<and> leapyear then 1 else 0))
                   in (year, month', n - preceding' + 1)
              else (year, month, n - preceding + 1))"

text \<open>\<open>datetime(year, month, day)\<close>: the constructor checks the fields.\<close>

definition datetime_ymd :: "int \<Rightarrow> nat \<Rightarrow> int \<Rightarrow> py_error + datetime" where
  "datetime_ymd y m d =
     (if \<not> (1 \<le> y \<and> y \<le> 9999) then Inl (Raised ''ValueError'' ''year is out of range'')
      else if \<not> (1 \<le> m \<and> m \<le> 12) then Inl (Raised ''ValueError'' ''month must be in 1..12'')
      else if \<not> (1 \<le> d \<and> d \<le> days_in_month y m)
        then Inl (Raised ''ValueError'' ''day is out of range for month'')
      else Inr \<lparr>ordinal = ymd2ord y m d, hour = 0, minute = 0, second = 0, microsecond = 0\<rparr>)"

text \<open>A \<open>timedelta\<close> is its length in microseconds.\<close>

type_synonym timedelta = int

definition US_PER_DAY :: int where
  "US_PER_DAY = 86400000000"

definition timedelta_days :: "int \<Rightarrow> timedelta" where
  "timedelta_days n = n * US_PER_DAY"

definition timedelta_minutes :: "int \<Rightarrow> timedelta" where
  "timedelta_minutes n = n * 60000000"

definition us_of_day :: "datetime \<Rightarrow> int" where
  "us_of_day d =
     ((int (hour d) * 60 + int (minute d)) * 60 + int (second d)) * 1000000 + int (microsecond d)"

definition to_us :: "datetime \<Rightarrow> int" where
  "to_us d = ordinal d * US_PER_DAY + us_of_day d"

text \<open>
  \<open>datetime.__add__\<close>: the sum is normalised into days, seconds and microseconds and must
  fall on a day of the calendar.
\<close>

definition dt_add :: "datetime \<Rightarrow> timedelta \<Rightarrow> py_error + datetime" where
  "dt_add d td =
     (let t = to_us d + td;
          days = t div US_PER_DAY;
          r = t mod US_PER_DAY;
          secs = r div 1000000;
          h = secs div 3600;
          rem = secs mod 3600
      in if 0 < days \<and> days \<le> MAXORDINAL
         then Inr \<lparr>ordinal = days, hour = nat h, minute = nat (rem div 60),
                   second = nat (rem mod 60), microsecond = nat (r mod 1000000)\<rparr>
         else Inl (Raised ''OverflowError'' ''date value out of range''))"

definition dt_sub :: "datetime \<Rightarrow> timedelta \<Rightarrow> py_error + datetime" where
  "dt_sub d td = dt_add d (- td)"

text \<open>Comparison of naive datetimes is the lexicographic order of their fields.\<close>

definition dt_less :: "datetime \<Rightarrow> datetime \<Rightarrow> bool" where
  "dt_less a b \<longleftrightarrow>
     ordinal a < ordinal b \<or> (ordinal a = ordinal b \<and>
      (hour a < hour b \<or> (hour a = hour b \<and>
       (minute a < minute b \<or> (minute a = minute b \<and>
        (second a < second b \<or> (second a = second b \<and> microsecond a < microsecond b)))))))"

definition dt_ge :: "datetime \<Rightarrow> datetime \<Rightarrow> bool" where
  "dt_ge a b \<longleftrightarrow> \<not> dt_less a b"

text \<open>\<open>replace(hour=h, minute=mi, second=s)\<close> keeps the date and the microsecond.\<close>

definition dt_replace :: "datetime \<Rightarrow> int \<Rightarrow> int \<Rightarrow> int \<Rightarrow> py_error + datetime" where
  "dt_replace d h mi s =
     (if \<not> (0 \<le> h \<and> h \<le> 23) then Inl (Raised ''ValueError'' ''hour must be in 0..23'')
      else if \<not> (0 \<le> mi \<and> mi \<le> 59) then Inl (Raised ''ValueError'' ''minute must be in 0..59'')
      else if \<not> (0 \<le> s \<and> s \<le> 59) then Inl (Raised ''ValueError'' ''second must be in 0..59'')
      else Inr (d\<lparr>hour := nat h, minute := nat mi, second := nat s\<rparr>))"

definition iso_date :: "datetime \<Rightarrow> string" where
  "iso_date d = (case ord2ymd (ordinal d) of (y, m, dd) \<Rightarrow>
     zfill 4 (str_int y) @ ''-'' @ zfill 2 (str_nat m) @ ''-'' @ zfill 2 (str_int dd))"

definition iso_time :: "datetime \<Rightarrow> string" where
  "iso_time d = zfill 2 (str_nat (hour d)) @ '':'' @ zfill 2 (str_nat (minute d)) @ '':''
     @ zfill 2 (str_nat (second d))
     @ (if microsecond d = 0 then [] else ''.'' @ zfill 6 (str_nat (microsecond d)))"

definition isoformat :: "datetime \<Rightarrow> string" where
  "isoformat d = iso_date d @ ''T'' @ iso_time d"

text \<open>\<open>str(d)\<close> is \<open>d.isoformat(sep=' ')\<close>.\<close>

definition str_datetime :: "datetime \<Rightarrow> string" where
  "str_datetime d = iso_date d @ '' '' @ iso_time d"

section \<open>Randomness\<close>

text \<open>
  \<open>random.randint(a, b)\<close> returns an integer of \<open>[a, b]\<close>, both ends included; \<open>r\<close> is
  the draw of the generator.
\<close>

definition randint :: "int \<Rightarrow> int \<Rightarrow> nat \<Rightarrow> int" where
  "randint a b r = a + int (r mod nat (b - a + 1))"

section \<open>Files\<close>

datatype 'a disk_file = Missing | Corrupt | Stored 'a

section \<open>Scheduler (main.py)\<close>

text \<open>
  \<open>success_data\<close> is the dictionary \<open>{"hours": {...}, "timestamps": [...]}\<close>. The inner
  dictionary \<open>hours\<close> is an association list in insertion order, from \<open>str(hour)\<close> to a count.
\<close>

record success_data =
  hours :: "(string \<times> int) list"
  timestamps :: "string list"

record scheduler =
  data :: success_data
  state_file :: "success_data disk_file"

definition fresh_state :: success_data where
  "fresh_state = \<lparr>hours = [], timestamps = []\<rparr>"

definition load_state :: "success_data disk_file \<Rightarrow> success_data" where
  "load_state f = (case f of Stored sd \<Rightarrow> sd | Corrupt \<Rightarrow> fresh_state | Missing \<Rightarrow> fresh_state)"

definition init_scheduler :: "success_data disk_file \<Rightarrow> scheduler" where
  "init_scheduler f = \<lparr>data = load_state f, state_file = f\<rparr>"

text \<open>\<open>save_state\<close> has no handler: a failing write (\<open>io = Some e\<close>) raises \<open>e\<close>.\<close>

definition save_state :: "py_error option \<Rightarrow> scheduler \<Rightarrow> py_error option \<times> scheduler" where
  "save_state io s = (case io of None \<Rightarrow> (None, s\<lparr>state_file := Stored (data s)\<rparr>)
                                | Some e \<Rightarrow> (Some e, s))"

text \<open>\<open>d.get(k, default)\<close>\<close>

definition dict_get :: "('k \<times> 'v) list \<Rightarrow> 'k \<Rightarrow> 'v \<Rightarrow> 'v" where
  "dict_get d k dflt = (case map_of d k of None \<Rightarrow> dflt | Some v \<Rightarrow> v)"

definition update_success :: "py_error option \<Rightarrow> datetime \<Rightarrow> scheduler \<Rightarrow> py_error option \<times> scheduler" where
  "update_success io timestamp s =
     (let hour_key = str_nat (hour timestamp);
          sd = data s;
          sd1 = sd\<lparr>hours := AList.update hour_key (dict_get (hours sd) hour_key 0 + 1) (hours sd)\<rparr>;
          sd2 = sd1\<lparr>timestamps := timestamps sd1 @ [isoformat timestamp]\<rparr>
      in save_state io (s\<lparr>data := sd2\<rparr>))"

text \<open>\<open>max(items, key=lambda x: x[1])\<close>: the first item with the greatest count.\<close>

definition max_by_count :: "(string \<times> int) list \<Rightarrow> py_error + (string \<times> int)" where
  "max_by_count items = (case items of
       [] \<Rightarrow> Inl (Raised ''ValueError'' ''max() arg is an empty sequence'')
     | x # xs \<Rightarrow> Inr (foldl (\<lambda>best y. if snd best < snd y then y else best) x xs))"

definition is_space :: "char \<Rightarrow> bool" where
  "is_space c \<longleftrightarrow> c \<in> set [CHR '' '', CHR 0x09, CHR 0x0A, CHR 0x0B, CHR 0x0C, CHR 0x0D]"

definition is_digit :: "char \<Rightarrow> bool" where
  "is_digit c \<longleftrightarrow> c \<in> set ''0123456789''"

definition strip :: "string \<Rightarrow> string" where
  "strip s = rev (dropWhile is_space (rev (dropWhile is_space s)))"

definition digit_val :: "char \<Rightarrow> nat" where
  "digit_val c = of_char c - 48"

definition nat_of_digits :: "string \<Rightarrow> nat" where
  "nat_of_digits ds = foldl (\<lambda>acc c. acc * 10 + digit_val c) 0 ds"

text \<open>
  \<open>int(s)\<close> on a string: surrounding whitespace, an optional sign, decimal digits with single
  underscores between them.
\<close>

fun digit_groups :: "string \<Rightarrow> bool" where
  "digit_groups [] = False"
| "digit_groups [c] = is_digit c"
| "digit_groups (c # u # cs) =
     (is_digit c \<and> (if u = CHR ''_'' then digit_groups cs else digit_groups (u # cs)))"

definition py_int :: "string \<Rightarrow> py_error + int" where
  "py_int s =
     (let t = strip s;
          neg = (t \<noteq> [] \<and> hd t = CHR ''-'');
          body = (if t \<noteq> [] \<and> (hd t = CHR ''-'' \<or> hd t = CHR ''+'') then tl t else t)
      in if digit_groups body
         then let n = int (nat_of_digits (filter (\<lambda>c. c \<noteq> CHR ''_'') body)) in Inr (if neg then - n else n)
         else Inl (Raised ''ValueError'' ''invalid literal for int() with base 10''))"

text \<open>
  \<open>get_next_run_time\<close>. \<open>clock k\<close> is the \<open>k\<close>-th reading of \<open>datetime.now()\<close> outside the
  \<open>try\<close> block, \<open>r1\<close> and \<open>r2\<close> are the draws of the two \<open>randint\<close> calls. The regression of
  the \<open>try\<close> block (numpy and scikit-learn on floats) is not part of this development:
  \<open>trend\<close> is what the block leaves in \<open>round(predict(...)[0] % 24)\<close>, or the exception it
  raises.
\<close>

definition get_next_run_time ::
  "(nat \<Rightarrow> datetime) \<Rightarrow> nat \<Rightarrow> nat \<Rightarrow> (py_error + int) \<Rightarrow> success_data \<Rightarrow> py_error + datetime" where
  "get_next_run_time clock r1 r2 trend sd =
     (if timestamps sd = [] then
        let default_hour = randint 9 17 r1
        in bind_err (dt_replace (clock 0) default_hour 0 0) (\<lambda>t. dt_add t (timedelta_days 1))
      else
        bind_err
          (case trend of
             Inr p \<Rightarrow> Inr (max 9 (min 21 p))
           | Inl e \<Rightarrow> bind_err (max_by_count (hours sd)) (\<lambda>best. py_int (fst best)))
          (\<lambda>predicted_hour.
             let window_minutes = randint (- 30) 30 r2
             in bind_err (dt_replace (clock 0) predicted_hour 0 0) (\<lambda>t.
                bind_err (dt_add t (timedelta_minutes window_minutes)) (\<lambda>next_run.
                  if dt_less next_run (clock 1) then dt_add next_run (timedelta_days 1)
                  else Inr next_run))))"

section \<open>Order dates (main.py)\<close>

definition validate_order_date :: "datetime \<Rightarrow> datetime option \<Rightarrow> py_error + bool" where
  "validate_order_date now order_date =
     (case order_date of
        None \<Rightarrow> Inr False
      | Some d \<Rightarrow> bind_err (dt_sub now (timedelta_days 30))
                    (\<lambda>thirty_days_ago. Inr (dt_ge d thirty_days_ago)))"

text \<open>
  The invariant of the scheduler state: \<open>hours\<close> is a dictionary (no key twice) and its
  counts add up to the number of recorded timestamps.
\<close>

definition sched_inv :: "success_data \<Rightarrow> bool" where
  "sched_inv sd \<longleftrightarrow> distinct (map fst (hours sd))
     \<and> sum_list (map snd (hours sd)) = int (length (timestamps sd))"

section \<open>Text\<close>

text \<open>
  A string is its UTF-8 bytes. \<open>str.lower()\<close> is modelled on the ASCII letters and on the
  accented capitals of Latin-1 (two bytes, \<open>0xC3\<close> then \<open>0x80..0x9E\<close> without \<open>0x97\<close>), which
  cover every letter of the English and Portuguese phrases of this program.
\<close>

definition is_upper :: "char \<Rightarrow> bool" where
  "is_upper c \<longleftrightarrow> c \<in> set ''ABCDEFGHIJKLMNOPQRSTUVWXYZ''"

definition is_lower :: "char \<Rightarrow> bool" where
  "is_lower c \<longleftrightarrow> c \<in> set ''abcdefghijklmnopqrstuvwxyz''"

definition lower_char :: "char \<Rightarrow> char" where
  "lower_char c = (case map_of (zip ''ABCDEFGHIJKLMNOPQRSTUVWXYZ'' ''abcdefghijklmnopqrstuvwxyz'') c of
                     Some l \<Rightarrow> l | None \<Rightarrow> c)"

definition latin1_capital :: "char \<Rightarrow> bool" where
  "latin1_capital c \<longleftrightarrow> 0x80 \<le> (of_char c :: nat) \<and> (of_char c :: nat) \<le> 0x9E \<and> (of_char c :: nat) \<noteq> 0x97"

fun py_lower :: "string \<Rightarrow> string" where
  "py_lower [] = []"
| "py_lower [c] = [lower_char c]"
| "py_lower (c # d # cs) =
     (if c = CHR 0xC3 \<and> latin1_capital d then c # char_of (of_char d + (0x20 :: nat)) # py_lower cs
      else lower_char c # py_lower (d # cs))"

text \<open>\<open>sub in s\<close>\<close>

fun contains :: "string \<Rightarrow> string \<Rightarrow> bool" where
  "contains sub [] \<longleftrightarrow> sub = []"
| "contains sub (c # cs) \<longleftrightarrow> prefix sub (c # cs) \<or> contains sub cs"

text \<open>
  \<open>s.split(sep)\<close> for a non-empty separator. \<open>find_sub sep s\<close> cuts \<open>s\<close> at the first
  occurrence of \<open>sep\<close>.
\<close>

fun find_sub :: "string \<Rightarrow> string \<Rightarrow> (string \<times> string) option" where
  "find_sub sep [] = (if sep = [] then Some ([], []) else None)"
| "find_sub sep (c # cs) =
     (if prefix sep (c # cs) then Some ([], drop (length sep) (c # cs))
      else map_option (\<lambda>(a, b). (c # a, b)) (find_sub sep cs))"

section \<open>Regular expressions\<close>

text \<open>
  The patterns of this program are sequences of character classes with bounded greedy
  repetition (\<open>x\<close>, \<open>x?\<close>, \<open>x{m,n}\<close>), without alternation. \<open>re.search\<close> returns the leftmost
  match, and at one position the first match in the order of greedy backtracking.
  \<open>[A-Z]\<close>, \<open>[a-z]\<close> and \<open>\d\<close> are modelled on ASCII.
\<close>

datatype char_class = Lit char | Upper | Lower | Digit

datatype re_item = Rep char_class nat nat

type_synonym regex = "re_item list"

definition lit :: "string \<Rightarrow> regex" where
  "lit s = map (\<lambda>c. Rep (Lit c) 1 1) s"

definition opt :: "char \<Rightarrow> regex" where
  "opt c = [Rep (Lit c) 0 1]"

text \<open>\<open>ic\<close> is the flag \<open>re.IGNORECASE\<close>.\<close>

fun class_match :: "bool \<Rightarrow> char_class \<Rightarrow> char \<Rightarrow> bool" where
  "class_match ic (Lit c) x = (if ic then lower_char x = lower_char c else x = c)"
| "class_match ic Upper x = (is_upper x \<or> (ic \<and> is_lower x))"
| "class_match ic Lower x = (is_lower x \<or> (ic \<and> is_upper x))"
| "class_match ic Digit x = is_digit x"

text \<open>The repetition counts to try for one item, the longest first.\<close>

definition rep_counts :: "bool \<Rightarrow> char_class \<Rightarrow> nat \<Rightarrow> nat \<Rightarrow> string \<Rightarrow> nat list" where
  "rep_counts ic c lo hi s =
     rev (filter (\<lambda>k. k \<le> length (takeWhile (class_match ic c) s)) [lo..<Suc hi])"

text \<open>All matches of a pattern at the start of \<open>s\<close>, in the order the engine finds them.\<close>

fun matches :: "bool \<Rightarrow> regex \<Rightarrow> string \<Rightarrow> string list" where
  "matches ic [] s = [[]]"
| "matches ic (Rep c lo hi # rest) s =
     concat (map (\<lambda>k. map (\<lambda>m. take k s @ m) (matches ic rest (drop k s)))
                 (rep_counts ic c lo hi s))"

definition match_at :: "bool \<Rightarrow> regex \<Rightarrow> string \<Rightarrow> string option" where
  "match_at ic p s = (case matches ic p s of [] \<Rightarrow> None | m # ms \<Rightarrow> Some m)"

fun re_search :: "bool \<Rightarrow> regex \<Rightarrow> string \<Rightarrow> string option" where
  "re_search ic p [] = match_at ic p []"
| "re_search ic p (c # cs) =
     (case match_at ic p (c # cs) of Some m \<Rightarrow> Some m | None \<Rightarrow> re_search ic p cs)"

section \<open>Dialog classification (main.py, \<open>TemuBot.check_dialog_type\<close>)\<close>

definition failure_indicators :: "regex list" where
  "failure_indicators =
     [lit ''sorry'' @ opt CHR '','' @ lit '' you cannot request'',
      lit ''not eligible for price adjustment'',
      lit ''exact same specifications'',
      lit ''same seller'',
      lit ''desculpe'' @ opt CHR '','' @ lit ('' voc'' @ [CHR 0xC3, CHR 0xAA] @ '' n'' @ [CHR 0xC3, CHR 0xA3]
          @ ''o pode solicitar''),
      lit (''n'' @ [CHR 0xC3, CHR 0xA3] @ ''o '' @ [CHR 0xC3, CHR 0xA9] @ '' eleg'' @ [CHR 0xC3, CHR 0xAD]
          @ ''vel para ajuste''),
      lit (''mesmas especifica'' @ [CHR 0xC3, CHR 0xA7, CHR 0xC3, CHR 0xB5] @ ''es''),
      lit ''mesmo vendedor'',
      lit ''items that are sold out'',
      lit ''discontinued'',
      lit ''out of stock'',
      lit ''no longer available'',
      lit ''refunded'',
      lit ''refund/return'']"

definition success_indicators :: "regex list" where
  "success_indicators =
     [lit ''request a price adjustment'',
      lit ''select refund method'',
      lit ''price adjustment'',
      lit ''refund amount'',
      lit ''reembolso'',
      lit (''ajuste de pre'' @ [CHR 0xC3, CHR 0xA7] @ ''o''),
      lit ''solicitar ajuste'',
      lit (''selecionar m'' @ [CHR 0xC3, CHR 0xA9] @ ''todo'')]"

definition class_indicators :: "string list" where
  "class_indicators = [''_39vL3TE4'', ''_10EiyDKr'', ''_2OaJDN8Y'']"

text \<open>
  What the page shows when the dialog is classified: \<open>dialog_text\<close> is the text of the
  dialog, absent when the wait for the dialog times out; \<open>page_classes\<close> are the class names
  for which \<open>find_elements\<close> returns an element, absent when the look-up raises.
\<close>

record dialog_env =
  dialog_text :: "string option"
  page_classes :: "string list option"

definition check_dialog_type :: "dialog_env \<Rightarrow> string" where
  "check_dialog_type env =
     (case dialog_text env of
        None \<Rightarrow> ''unknown''
      | Some text \<Rightarrow>
          let dialog_text = py_lower text in
          if \<exists>indicator \<in> set failure_indicators. re_search True indicator dialog_text \<noteq> None
            then ''failure''
          else if \<exists>indicator \<in> set success_indicators. re_search True indicator dialog_text \<noteq> None
            then ''success''
          else (case page_classes env of
                  None \<Rightarrow> ''unknown''
                | Some present \<Rightarrow>
                    let found_classes = length (filter (\<lambda>cls. cls \<in> set present) class_indicators)
                    in if found_classes \<ge> 2 then ''failure'' else ''unknown''))"

section \<open>Python values and dictionaries\<close>

text \<open>
  The values an order dictionary holds. A \<open>WebElement\<close> is kept as its \<open>str()\<close>. A dictionary
  is an association list in insertion order: \<open>d[k] = v\<close> is \<open>AList.update k v d\<close>, \<open>del d[k]\<close>
  is \<open>AList.delete k d\<close>, \<open>d[k]\<close> is \<open>map_of d k\<close> and raises \<open>KeyError\<close> on \<open>None\<close>.
\<close>

datatype pyval = VNone | VBool bool | VInt int | VStr string | VDatetime datetime
  | VWebElement string | VDict "(string \<times> pyval) list"

type_synonym pydict = "(string \<times> pyval) list"

fun truthy :: "pyval \<Rightarrow> bool" where
  "truthy VNone = False"
| "truthy (VBool b) = b"
| "truthy (VInt i) = (i \<noteq> 0)"
| "truthy (VStr s) = (s \<noteq> [])"
| "truthy (VDatetime d) = True"
| "truthy (VWebElement r) = True"
| "truthy (VDict d) = (d \<noteq> [])"

fun is_webelement :: "pyval \<Rightarrow> bool" where
  "is_webelement (VWebElement r) = True"
| "is_webelement v = False"

text \<open>\<open>d.update(other)\<close> assigns the items of \<open>other\<close> in their order.\<close>

definition dict_update :: "pydict \<Rightarrow> pydict \<Rightarrow> pydict" where
  "dict_update d other = foldl (\<lambda>acc kv. AList.update (fst kv) (snd kv) acc) d other"

text \<open>
  \<open>a == b\<close>: booleans are the integers 0 and 1; everything else compares by structure
  (the identifiers compared in this program are strings).
\<close>

fun as_num :: "pyval \<Rightarrow> int option" where
  "as_num (VBool b) = Some (if b then 1 else 0)"
| "as_num (VInt i) = Some i"
| "as_num v = None"

definition py_eq :: "pyval \<Rightarrow> pyval \<Rightarrow> bool" where
  "py_eq a b = (case (as_num a, as_num b) of
                  (Some x, Some y) \<Rightarrow> x = y
                | (None, None) \<Rightarrow> a = b
                | _ \<Rightarrow> False)"

text \<open>What \<open>json.dump(..., default=str)\<close> followed by \<open>json.load\<close> makes of a value.\<close>

fun json_value :: "pyval \<Rightarrow> pyval" where
  "json_value (VDatetime d) = VStr (str_datetime d)"
| "json_value (VWebElement r) = VStr r"
| "json_value (VDict kvs) = VDict (map (\<lambda>kv. (fst kv, json_value (snd kv))) kvs)"
| "json_value VNone = VNone"
| "json_value (VBool b) = VBool b"
| "json_value (VInt i) = VInt i"
| "json_value (VStr s) = VStr s"

definition json_record :: "pydict \<Rightarrow> pydict" where
  "json_record d = map (\<lambda>kv. (fst kv, json_value (snd kv))) d"

section \<open>The order store (\<open>save_order_data\<close>)\<close>

definition load_orders :: "pydict list disk_file \<Rightarrow> pydict list" where
  "load_orders f = (case f of Stored os \<Rightarrow> os | Corrupt \<Rightarrow> [] | Missing \<Rightarrow> [])"

text \<open>
  Both versions first drop the key \<open>element\<close> and every key whose value is a \<open>WebElement\<close>.
\<close>

definition clean_order :: "pydict \<Rightarrow> pydict" where
  "clean_order order = filter (\<lambda>kv. \<not> is_webelement (snd kv)) (AList.delete ''element'' order)"

text \<open>
  main.py: \<open>if 'date_obj' in order and order['date_obj']: order['date_obj'] =
  order['date_obj'].isoformat()\<close>. Only a \<open>datetime\<close> has the method.
\<close>

definition convert_date_obj :: "pydict \<Rightarrow> py_error + pydict" where
  "convert_date_obj order =
     (case map_of order ''date_obj'' of
        None \<Rightarrow> Inr order
      | Some v \<Rightarrow>
          if truthy v then
            (case v of
               VDatetime d \<Rightarrow> Inr (AList.update ''date_obj'' (VStr (isoformat d)) order)
             | _ \<Rightarrow> Inl (Raised ''AttributeError'' ''object has no attribute isoformat''))
          else Inr order)"

text \<open>utils.py guards the conversion with \<open>isinstance(order['date_obj'], datetime)\<close>.\<close>

definition utils_convert_date_obj :: "pydict \<Rightarrow> pydict" where
  "utils_convert_date_obj order =
     (case map_of order ''date_obj'' of
        Some (VDatetime d) \<Rightarrow> AList.update ''date_obj'' (VStr (isoformat d)) order
      | _ \<Rightarrow> order)"

text \<open>
  \<open>next((o for o in orders if o['id'] == order['id']), None)\<close>: the position of the first
  stored record with the identifier of \<open>order\<close>; both subscripts raise \<open>KeyError\<close>.
\<close>

fun find_existing :: "pydict list \<Rightarrow> pydict \<Rightarrow> py_error + nat option" where
  "find_existing [] order = Inr None"
| "find_existing (o1 # os) order =
     (case map_of o1 ''id'' of
        None \<Rightarrow> Inl (Raised ''KeyError'' ''id'')
      | Some stored_id \<Rightarrow>
          (case map_of order ''id'' of
             None \<Rightarrow> Inl (Raised ''KeyError'' ''id'')
           | Some new_id \<Rightarrow>
               if py_eq stored_id new_id then Inr (Some 0)
               else bind_err (find_existing os order) (\<lambda>r. Inr (map_option Suc r))))"

definition upsert :: "pydict list \<Rightarrow> pydict \<Rightarrow> py_error + pydict list" where
  "upsert orders order =
     bind_err (find_existing orders order) (\<lambda>existing.
       Inr (case existing of
              Some i \<Rightarrow> orders[i := dict_update (orders ! i) order]
            | None \<Rightarrow> orders @ [order]))"

text \<open>
  \<open>save_order_data\<close> of main.py, the one \<open>process_order\<close> calls. It returns its boolean, the
  order as the call leaves it (the caller's dictionary is changed in place) and the file.
  \<open>io\<close> is the failure of opening the file for writing, if any; the file is then left as it
  was. Every exception is caught and makes the result \<open>False\<close>.
\<close>

definition save_order_data ::
  "py_error option \<Rightarrow> pydict \<Rightarrow> pydict list disk_file \<Rightarrow> bool \<times> pydict \<times> pydict list disk_file" where
  "save_order_data io order f =
     (let order1 = clean_order order in
      case convert_date_obj order1 of
        Inl e \<Rightarrow> (False, order1, f)
      | Inr order2 \<Rightarrow>
          (case upsert (load_orders f) order2 of
             Inl e \<Rightarrow> (False, order2, f)
           | Inr orders \<Rightarrow>
               (case io of
                  Some e \<Rightarrow> (False, order2, f)
                | None \<Rightarrow> (True, order2, Stored (map json_record orders)))))"

text \<open>\<open>save_order_data\<close> of utils.py.\<close>

definition utils_save_order_data ::
  "py_error option \<Rightarrow> pydict \<Rightarrow> pydict list disk_file \<Rightarrow> bool \<times> pydict \<times> pydict list disk_file" where
  "utils_save_order_data io order f =
     (let order2 = utils_convert_date_obj (clean_order order) in
      case upsert (load_orders f) order2 of
        Inl e \<Rightarrow> (False, order2, f)
      | Inr orders \<Rightarrow>
          (case io of
             Some e \<Rightarrow> (False, order2, f)
           | None \<Rightarrow> (True, order2, Stored (map json_record orders))))"

section \<open>The price adjustment attempt (\<open>TemuBot.attempt_price_adjustment\<close>)\<close>

text \<open>
  \<open>handle_price_adjustment_flow\<close> is a walk through the pages of the site; what it returns and
  what it writes to \<open>order['refund_amount']\<close> are taken from the page: it returns \<open>True\<close> after
  a confirmation, having stored the refund text unless its extraction raised, and \<open>False\<close>
  otherwise.
\<close>

datatype flow_outcome = FlowTrue "string option" | FlowFalse

definition handle_price_adjustment_flow :: "flow_outcome \<Rightarrow> pydict \<Rightarrow> bool \<times> pydict" where
  "handle_price_adjustment_flow flow order =
     (case flow of
        FlowTrue None \<Rightarrow> (True, order)
      | FlowTrue (Some amount) \<Rightarrow> (True, AList.update ''refund_amount'' (VStr amount) order)
      | FlowFalse \<Rightarrow> (False, order))"

text \<open>
  What the page does in one sub-attempt: no displayed button with the text is found; the
  button is found but its text fails the second check; a driver call raises;
  the dialog does not appear within its wait; or a dialog appears.
\<close>

datatype sub_env = NoButton | VerificationFails | DriverRaises py_error | DialogTimeout
  | DialogShown dialog_env flow_outcome

definition max_sub_attempts :: nat where
  "max_sub_attempts = 7"

fun price_adjustment_loop :: "(nat \<Rightarrow> sub_env) \<Rightarrow> pydict \<Rightarrow> nat list \<Rightarrow> bool option \<times> pydict" where
  "price_adjustment_loop env order [] = (None, order)"
| "price_adjustment_loop env order (attempt # rest) =
     (case env attempt of
        NoButton \<Rightarrow>
          if attempt = max_sub_attempts then (None, order)
          else price_adjustment_loop env order rest
      | VerificationFails \<Rightarrow> price_adjustment_loop env order rest
      | DriverRaises e \<Rightarrow> (None, order)
      | DialogTimeout \<Rightarrow>
          if attempt < max_sub_attempts then price_adjustment_loop env order rest
          else (None, order)
      | DialogShown dialog flow \<Rightarrow>
          let dialog_type = check_dialog_type dialog in
          if dialog_type = ''success''
            then (case handle_price_adjustment_flow flow order of (r, order') \<Rightarrow> (Some r, order'))
          else if dialog_type = ''failure'' then (Some False, order)
          else price_adjustment_loop env order rest)"

definition attempt_price_adjustment :: "(nat \<Rightarrow> sub_env) \<Rightarrow> pydict \<Rightarrow> bool option \<times> pydict" where
  "attempt_price_adjustment env order = price_adjustment_loop env order [1..<Suc max_sub_attempts]"

section \<open>Processing one order (\<open>TemuBot.process_order\<close>)\<close>

text \<open>The counters of \<open>self.stats\<close> (its three time stamps are left out).\<close>

record run_stats =
  total_orders :: int
  valid_orders :: int
  processed :: int
  success :: int
  failures :: int
  adjustment_available :: int
  adjustment_not_available :: int

definition initial_stats :: run_stats where
  "initial_stats = \<lparr>total_orders = 0, valid_orders = 0, processed = 0, success = 0, failures = 0,
     adjustment_available = 0, adjustment_not_available = 0\<rparr>"

text \<open>The state outside the order: the counters, the scheduler and the file \<open>orders.json\<close>.\<close>

record world =
  stats :: run_stats
  sched :: scheduler
  orders_file :: "pydict list disk_file"

text \<open>
  What the outside does during one attempt: whether the detail page loads
  (\<open>get_order_details_page\<close>), what \<open>get_tracking_info\<close> returns or raises, the two texts of
  \<open>get_element_text_or_default\<close>, the sub-attempts of the price adjustment, the clock at the
  moment of a success, the failures of the three writes (scheduler state, \<open>orders.json\<close>, the
  text file of \<open>save_order_to_txt\<close>), if any.
\<close>

record attempt_env =
  details_page :: bool
  tracking :: "py_error + pydict"
  item_name :: string
  order_time :: string
  sub_attempts :: "nat \<Rightarrow> sub_env"
  success_time :: datetime
  sched_write :: "py_error option"
  orders_write :: "py_error option"
  txt_write :: "py_error option"

type_synonym loop_state = "pydict \<times> world \<times> bool option"

definition attempts_of :: "pydict \<Rightarrow> int option" where
  "attempts_of order = (case map_of order ''attempts'' of Some (VInt n) \<Rightarrow> Some n | _ \<Rightarrow> None)"

text \<open>
  The handler \<open>except Exception as e\<close> of the loop body: it counts a failure, records the
  message and sets the status; \<open>save_page_source\<close> and the navigation back catch their own
  exceptions.
\<close>

definition except_handler :: "py_error \<Rightarrow> loop_state \<Rightarrow> loop_state" where
  "except_handler e st =
     (case st of (order, w, result) \<Rightarrow>
        (AList.update ''adjustment_status'' (VStr ''failed'')
           (AList.update ''last_error'' (VStr (exc_msg e)) order),
         w\<lparr>stats := (stats w)\<lparr>failures := failures (stats w) + 1\<rparr>\<rparr>,
         result))"

text \<open>
  The end of the \<open>try\<close> block: \<open>adjustment_attempted\<close>, \<open>save_order_data\<close>,
  \<open>save_order_to_txt\<close> (which has no handler of its own), the way back to the orders page.
\<close>

definition finish_attempt :: "attempt_env \<Rightarrow> loop_state \<Rightarrow> loop_state" where
  "finish_attempt e st =
     (case st of (order, w, result) \<Rightarrow>
        let order1 = AList.update ''adjustment_attempted'' (VBool True) order in
        case save_order_data (orders_write e) order1 (orders_file w) of
          (saved, order2, f) \<Rightarrow>
            let w1 = w\<lparr>orders_file := f\<rparr> in
            (case txt_write e of
               Some err \<Rightarrow> except_handler err (order2, w1, result)
             | None \<Rightarrow> (order2, w1, result)))"

text \<open>
  The fields the \<open>try\<close> block sets once the tracking information is there
  (\<open>order['tracking_info']\<close> to \<open>order['details']\<close>).
\<close>

definition prepare_order :: "attempt_env \<Rightarrow> pyval \<Rightarrow> pydict \<Rightarrow> pydict \<Rightarrow> pydict" where
  "prepare_order e order_id tracking_info order =
     (let order2 = AList.update ''tracking_info'' (VDict tracking_info) order;
          order3 = AList.update ''adjustment_attempted'' (VBool False) order2;
          order4 = AList.update ''adjustment_success'' (VBool False) order3;
          order5 = AList.update ''adjustment_status'' (VStr ''not_attempted'') order4;
          order6 = AList.update ''last_error'' (VStr []) order5;
          order_details = [(''item_name'', VStr (item_name e)),
                           (''order_date'', VStr (order_time e)),
                           (''order_id'', order_id)]
      in AList.update ''details'' (VDict order_details) order6)"

text \<open>
  The branches on \<open>adjustment_result\<close> (\<open>is True\<close>, \<open>is False\<close>, otherwise) and the end of the
  \<open>try\<close> block. \<open>scheduler.update_success\<close> may raise, before the status is set.
\<close>

definition record_result :: "attempt_env \<Rightarrow> bool option \<Rightarrow> loop_state \<Rightarrow> loop_state" where
  "record_result e adjustment_result st =
     (case st of (order, w, result) \<Rightarrow>
        (case adjustment_result of
           Some True \<Rightarrow>
             let w1 = w\<lparr>stats := (stats w)\<lparr>success := success (stats w) + 1\<rparr>\<rparr> in
             (case update_success (sched_write e) (success_time e) (sched w1) of
                (Some err, s) \<Rightarrow> except_handler err (order, w1\<lparr>sched := s\<rparr>, result)
              | (None, s) \<Rightarrow>
                  let order1 = AList.update ''adjustment_status'' (VStr ''success'') order;
                      order2 = AList.update ''adjustment_success'' (VBool True) order1
                  in finish_attempt e (order2, w1\<lparr>sched := s\<rparr>, Some True))
         | Some False \<Rightarrow>
             let w1 = w\<lparr>stats := (stats w)\<lparr>adjustment_not_available :=
                        adjustment_not_available (stats w) + 1\<rparr>\<rparr>;
                 order1 = AList.update ''adjustment_status'' (VStr ''not_available'') order
             in finish_attempt e (order1, w1, Some False)
         | None \<Rightarrow>
             let w1 = w\<lparr>stats := (stats w)\<lparr>failures := failures (stats w) + 1\<rparr>\<rparr>;
                 order1 = AList.update ''adjustment_status'' (VStr ''failed'') order;
                 order2 = AList.update ''last_error'' (VStr ''Price adjustment failed'') order1
             in finish_attempt e (order2, w1, result)))"

text \<open>
  One pass through the body of the \<open>while\<close> loop, \<open>n\<close> being \<open>order['attempts']\<close> on entry.
  The first component is an exception that leaves \<open>process_order\<close>: the handler itself reads
  \<open>order['id']\<close>.
\<close>

definition attempt_body :: "attempt_env \<Rightarrow> int \<Rightarrow> loop_state \<Rightarrow> py_error option \<times> loop_state" where
  "attempt_body e n st =
     (case st of (order0, w, result) \<Rightarrow>
        let order1 = AList.update ''attempts'' (VInt (n + 1)) order0 in
        case map_of order1 ''id'' of
          None \<Rightarrow>
            (Some (Raised ''KeyError'' ''id''),
             (order1, w\<lparr>stats := (stats w)\<lparr>failures := failures (stats w) + 1\<rparr>\<rparr>, result))
        | Some order_id \<Rightarrow>
            if \<not> details_page e then (None, (order1, w, result))
            else
              (case tracking e of
                 Inl err \<Rightarrow> (None, except_handler err (order1, w, result))
               | Inr tracking_info \<Rightarrow>
                   (case attempt_price_adjustment (sub_attempts e)
                           (prepare_order e order_id tracking_info order1) of
                      (adjustment_result, order2) \<Rightarrow>
                        (None, record_result e adjustment_result (order2, w, result)))))"

definition max_attempts :: int where
  "max_attempts = 5"

text \<open>
  No step of the body touches \<open>order['attempts']\<close> after the increment: this bounds the
  loop.
\<close>

lemma map_of_filter_keep:
  "map_of d k = Some v \<Longrightarrow> P (k, v) \<Longrightarrow> map_of (filter P d) k = Some v"
  by (induction d) (auto split: if_splits)

lemma attempts_of_update:
  "k \<noteq> ''attempts'' \<Longrightarrow> attempts_of (AList.update k v d) = attempts_of d"
  by (simp add: attempts_of_def update_conv')

lemma attempts_of_clean: "attempts_of d = Some n \<Longrightarrow> attempts_of (clean_order d) = Some n"
proof -
  assume "attempts_of d = Some n"
  then have "map_of d ''attempts'' = Some (VInt n)"
    by (auto simp: attempts_of_def split: option.splits pyval.splits)
  then have "map_of (AList.delete ''element'' d) ''attempts'' = Some (VInt n)"
    by (simp add: delete_conv')
  then have "map_of (clean_order d) ''attempts'' = Some (VInt n)"
    unfolding clean_order_def by (rule map_of_filter_keep) simp
  then show ?thesis by (simp add: attempts_of_def)
qed

lemma attempts_of_convert:
  "convert_date_obj d = Inr d' \<Longrightarrow> attempts_of d' = attempts_of d"
  by (auto simp: convert_date_obj_def attempts_of_update split: option.splits if_splits pyval.splits)

lemma attempts_of_save:
  "attempts_of d = Some n \<Longrightarrow> attempts_of (fst (snd (save_order_data io d f))) = Some n"
  by (auto simp: save_order_data_def Let_def attempts_of_clean attempts_of_convert
      split: sum.splits option.splits)

lemma attempts_of_flow:
  "attempts_of (snd (handle_price_adjustment_flow flow d)) = attempts_of d"
  by (auto simp: handle_price_adjustment_flow_def attempts_of_update split: flow_outcome.splits option.splits)

lemma attempts_of_pa_loop:
  "attempts_of (snd (price_adjustment_loop env d ks)) = attempts_of d"
proof (induction ks)
  case Nil
  then show ?case by simp
next
  case (Cons k ks)
  have f: "\<And>flow. attempts_of (snd (case handle_price_adjustment_flow flow d of (r, order') \<Rightarrow> (Some r, order'))) = attempts_of d"
    using attempts_of_flow by (simp add: case_prod_beta)
  show ?case using Cons f
    by (cases "env k") (simp_all add: Let_def)
qed

lemma attempts_of_apa:
  "attempts_of (snd (attempt_price_adjustment env d)) = attempts_of d"
  by (simp add: attempt_price_adjustment_def attempts_of_pa_loop)

lemma attempts_of_handler:
  "attempts_of (fst (except_handler e (d, w, r))) = attempts_of d"
  by (simp add: except_handler_def attempts_of_update)

lemma attempts_of_finish:
  "attempts_of d = Some n \<Longrightarrow> attempts_of (fst (finish_attempt e (d, w, r))) = Some n"
proof -
  assume a: "attempts_of d = Some n"
  define d1 where "d1 = AList.update ''adjustment_attempted'' (VBool True) d"
  have a1: "attempts_of d1 = Some n" using a by (simp add: d1_def attempts_of_update)
  obtain saved d2 f where s: "save_order_data (orders_write e) d1 (orders_file w) = (saved, d2, f)"
    by (metis prod_cases3)
  have a2: "attempts_of d2 = Some n" using attempts_of_save [OF a1, of "orders_write e" "orders_file w"] s by simp
  show ?thesis
    using a2 s by (simp add: finish_attempt_def d1_def[symmetric] Let_def attempts_of_handler split: option.splits)
qed

lemma attempts_of_prepare:
  "attempts_of (prepare_order e oid ti d) = attempts_of d"
  by (simp add: prepare_order_def Let_def attempts_of_update)

lemma attempts_of_record:
  assumes "attempts_of d = Some n"
  shows "attempts_of (fst (record_result e ar (d, w, r))) = Some n"
proof (cases ar)
  case None
  then show ?thesis using assms
    by (simp add: record_result_def Let_def attempts_of_finish attempts_of_update)
next
  case (Some b)
  show ?thesis
  proof (cases b)
    case False
    then show ?thesis using Some assms
      by (simp add: record_result_def Let_def attempts_of_finish attempts_of_update)
  next
    case True
    obtain err s where us: "update_success (sched_write e) (success_time e)
        (sched (w\<lparr>stats := (stats w)\<lparr>success := success (stats w) + 1\<rparr>\<rparr>)) = (err, s)"
      by (cases "update_success (sched_write e) (success_time e)
        (sched (w\<lparr>stats := (stats w)\<lparr>success := success (stats w) + 1\<rparr>\<rparr>))")
    show ?thesis using Some True assms us
      by (cases err) (simp_all add: record_result_def Let_def attempts_of_finish attempts_of_update attempts_of_handler)
  qed
qed

lemma attempts_of_body:
  "attempts_of (fst (snd (attempt_body e n (d, w, r)))) = Some (n + 1)"
proof -
  define d1 where "d1 = AList.update ''attempts'' (VInt (n + 1)) d"
  have a1: "attempts_of d1 = Some (n + 1)" by (simp add: d1_def attempts_of_def update_conv')
  show ?thesis
  proof (cases "map_of d1 ''id''")
    case None
    then show ?thesis using a1 by (simp add: attempt_body_def d1_def[symmetric])
  next
    case (Some oid)
    show ?thesis
    proof (cases "details_page e")
      case False
      then show ?thesis using a1 Some by (simp add: attempt_body_def d1_def[symmetric])
    next
      case True
      show ?thesis
      proof (cases "tracking e")
        case (Inl err)
        then show ?thesis using a1 Some True
          by (simp add: attempt_body_def d1_def[symmetric] attempts_of_handler)
      next
        case (Inr ti)
        obtain ar d8 where apa: "attempt_price_adjustment (sub_attempts e) (prepare_order e oid ti d1) = (ar, d8)"
          by (cases "attempt_price_adjustment (sub_attempts e) (prepare_order e oid ti d1)")
        have a8: "attempts_of d8 = Some (n + 1)"
          using attempts_of_apa [of "sub_attempts e" "prepare_order e oid ti d1"] apa a1
          by (simp add: attempts_of_prepare)
        show ?thesis
          using Some True Inr apa attempts_of_record [OF a8]
          by (simp add: attempt_body_def d1_def[symmetric])
      qed
    qed
  qed
qed

text \<open>
  The loop \<open>while order['attempts'] < max_attempts and result is None\<close>. \<open>env k\<close> is what the
  outside does during attempt \<open>k\<close>.
\<close>

function process_order_loop :: "(nat \<Rightarrow> attempt_env) \<Rightarrow> loop_state \<Rightarrow> py_error option \<times> loop_state" where
  "process_order_loop env st =
     (case attempts_of (fst st) of
        None \<Rightarrow> (Some (Raised ''KeyError'' ''attempts''), st)
      | Some n \<Rightarrow>
          if n < max_attempts \<and> snd (snd st) = None then
            (case attempt_body (env (nat (n + 1))) n st of
               (Some err, st') \<Rightarrow> (Some err, st')
             | (None, st') \<Rightarrow> process_order_loop env st')
          else (None, st))"
  by pat_completeness auto
termination
proof (relation "measure (\<lambda>(env, st). case attempts_of (fst st) of None \<Rightarrow> 0
                                        | Some n \<Rightarrow> nat (max_attempts - n))")
  show "wf (measure (\<lambda>(env, st). case attempts_of (fst st) of None \<Rightarrow> 0
                                        | Some n \<Rightarrow> nat (max_attempts - n)))"
    by simp
next
  fix env :: "nat \<Rightarrow> attempt_env" and st :: loop_state and n x st' err
  assume a: "attempts_of (fst st) = Some n" and c: "n < max_attempts \<and> snd (snd st) = None"
    and b: "(x, st') = attempt_body (env (nat (n + 1))) n st"
  obtain d w r where st: "st = (d, w, r)" by (cases st)
  have "attempts_of (fst st') = Some (n + 1)"
    using attempts_of_body [of "env (nat (n + 1))" n d w r] b [symmetric] st by simp
  then show "((env, st'), (env, st)) \<in> measure (\<lambda>(env, st). case attempts_of (fst st) of None \<Rightarrow> 0
                                        | Some n \<Rightarrow> nat (max_attempts - n))"
    using a c by simp
qed

declare process_order_loop.simps [simp del]

text \<open>\<open>process_order\<close> returns \<open>result is True\<close>; the order and the state are changed in place.\<close>

definition process_order :: "(nat \<Rightarrow> attempt_env) \<Rightarrow> pydict \<Rightarrow> world \<Rightarrow> (py_error + bool) \<times> pydict \<times> world" where
  "process_order env order w =
     (case process_order_loop env (AList.update ''attempts'' (VInt 0) order, w, None) of
        (Some err, (order', w', result)) \<Rightarrow> (Inl err, order', w')
      | (None, (order', w', result)) \<Rightarrow> (Inr (result = Some True), order', w'))"

section \<open>Processing the batch (\<open>TemuBot.process_orders\<close>)\<close>

text \<open>
  \<open>while self.is_view_more_present(): self.click_view_more()\<close>: \<open>present k\<close> tells whether the
  control is there after \<open>k\<close> clicks. Nothing bounds this loop.
\<close>

partial_function (option) load_all_orders :: "(nat \<Rightarrow> bool) \<Rightarrow> nat \<Rightarrow> nat option" where
  "load_all_orders present k = (if present k then load_all_orders present (Suc k) else Some k)"

declare load_all_orders.simps [code]

text \<open>\<open>[order for order in orders if order['valid']]\<close>\<close>

fun select_valid :: "pydict list \<Rightarrow> py_error + pydict list" where
  "select_valid [] = Inr []"
| "select_valid (order # rest) =
     (case map_of order ''valid'' of
        None \<Rightarrow> Inl (Raised ''KeyError'' ''valid'')
      | Some v \<Rightarrow> bind_err (select_valid rest) (\<lambda>r. Inr (if truthy v then order # r else r)))"

text \<open>The log lines at the head of the loop body read three keys of the order.\<close>

definition log_order :: "pydict \<Rightarrow> py_error option" where
  "log_order order =
     (case map_of order ''id'' of
        None \<Rightarrow> Some (Raised ''KeyError'' ''id'')
      | Some i \<Rightarrow>
          (case map_of order ''date_obj'' of
             None \<Rightarrow> Some (Raised ''KeyError'' ''date_obj'')
           | Some v \<Rightarrow>
               if truthy v \<and> (case v of VDatetime d \<Rightarrow> False | _ \<Rightarrow> True)
                 then Some (Raised ''AttributeError'' ''object has no attribute strftime'')
               else (case map_of order ''item_count'' of
                       None \<Rightarrow> Some (Raised ''KeyError'' ''item_count'')
                     | Some c \<Rightarrow> None)))"

text \<open>
  One entry per call of \<open>process_order\<close>: the order it was called on, the order as the call
  left it, and what the call returned or raised.
\<close>

type_synonym attempt_trace = "pydict \<times> pydict \<times> (py_error + bool)"

text \<open>
  The \<open>for\<close> loop over \<open>orders_to_process\<close>; \<open>env i\<close> is the environment of the \<open>i\<close>-th order.
  An exception ends the loop.
\<close>

fun process_batch ::
  "(nat \<Rightarrow> nat \<Rightarrow> attempt_env) \<Rightarrow> nat \<Rightarrow> pydict list \<Rightarrow> world \<Rightarrow> py_error option \<times> attempt_trace list \<times> world" where
  "process_batch env i [] w = (None, [], w)"
| "process_batch env i (order # rest) w =
     (let w1 = w\<lparr>stats := (stats w)\<lparr>processed := processed (stats w) + 1\<rparr>\<rparr> in
      case log_order order of
        Some err \<Rightarrow> (Some err, [], w1)
      | None \<Rightarrow>
          (case process_order (env i) order w1 of
             (Inl err, order', w2) \<Rightarrow> (Some err, [(order, order', Inl err)], w2)
           | (Inr ok, order', w2) \<Rightarrow>
               (case process_batch env (Suc i) rest w2 of
                  (r, trace, w3) \<Rightarrow> (r, (order, order', Inr ok) # trace, w3))))"

text \<open>
  \<open>process_orders\<close>, with \<open>orders\<close> the list \<open>get_orders()\<close> extracts from the page. The result
  is absent when the first loop never ends.
\<close>

definition process_orders ::
  "(nat \<Rightarrow> bool) \<Rightarrow> pydict list \<Rightarrow> (nat \<Rightarrow> nat \<Rightarrow> attempt_env) \<Rightarrow> world
     \<Rightarrow> (bool \<times> attempt_trace list \<times> world) option" where
  "process_orders present orders env w =
     (case load_all_orders present 0 of
        None \<Rightarrow> None
      | Some clicks \<Rightarrow>
          Some (if orders = [] then (True, [], w)
                else
                  let w1 = w\<lparr>stats := (stats w)\<lparr>total_orders := int (length orders)\<rparr>\<rparr> in
                  case select_valid orders of
                    Inl err \<Rightarrow> (False, [], w1)
                  | Inr valids \<Rightarrow>
                      let w2 = w1\<lparr>stats := (stats w1)\<lparr>valid_orders := int (length valids)\<rparr>\<rparr>;
                          max_orders = min 10 (valid_orders (stats w2));
                          orders_to_process = take (nat max_orders) valids
                      in case process_batch env 1 orders_to_process w2 of
                           (None, trace, w3) \<Rightarrow> (True, trace, w3)
                         | (Some err, trace, w3) \<Rightarrow> (False, trace, w3)))"

section \<open>Sample data\<close>

text \<open>An order as \<open>get_orders\<close> builds it, an empty state, and environments of one attempt.\<close>

definition sample_order :: pydict where
  "sample_order =
     [(''id'', VStr ''PO-211-01''),
      (''date_str'', VStr ''Jan 5, 2024''),
      (''date_obj'', VDatetime \<lparr>ordinal = 738890, hour = 0, minute = 0, second = 0, microsecond = 0\<rparr>),
      (''item_count'', VStr ''2''),
      (''valid'', VBool True),
      (''element'', VWebElement ''<WebElement 1>'')]"

definition empty_world :: world where
  "empty_world = \<lparr>stats = initial_stats, sched = init_scheduler Missing, orders_file = Missing\<rparr>"

text \<open>Everything works and the site confirms the adjustment.\<close>

definition env_confirmed :: attempt_env where
  "env_confirmed =
     \<lparr>details_page = True,
      tracking = Inr [(''tracking_number'', VStr ''TN1''), (''delivery_text'', VStr ''N/A''),
                      (''formatted_delivery'', VStr ''N/A'')],
      item_name = ''Item'',
      order_time = ''Order time: Jan 5, 2024'',
      sub_attempts = (\<lambda>k. DialogShown \<lparr>dialog_text = Some ''Request a price adjustment'',
                                          page_classes = Some []\<rparr> (FlowTrue (Some ''$1.00''))),
      success_time = \<lparr>ordinal = 738895, hour = 14, minute = 5, second = 30, microsecond = 0\<rparr>,
      sched_write = None, orders_write = None, txt_write = None\<rparr>"

text \<open>The site refuses the adjustment in the first dialog.\<close>

definition env_refused :: attempt_env where
  "env_refused = env_confirmed\<lparr>sub_attempts :=
     (\<lambda>k. DialogShown \<lparr>dialog_text = Some ''Sorry, this item is not eligible for price adjustment'',
                         page_classes = Some []\<rparr> FlowFalse)\<rparr>"

text \<open>The detail page never loads: \<open>get_order_details_page\<close> returns \<open>False\<close>.\<close>

definition env_timeout :: attempt_env where
  "env_timeout = env_confirmed\<lparr>details_page := False\<rparr>"

text \<open>The adjustment is confirmed, then the text file of the order cannot be written.\<close>

definition env_txt_fails :: attempt_env where
  "env_txt_fails = env_confirmed\<lparr>txt_write := Some (Raised ''OSError'' ''File name too long'')\<rparr>"

text \<open>No price adjustment button is found in any sub-attempt.\<close>

definition env_no_button :: attempt_env where
  "env_no_button = env_confirmed\<lparr>sub_attempts := (\<lambda>k. NoButton)\<rparr>"

section \<open>Properties of the date arithmetic\<close>

lemma us_of_day_bounds:
  assumes "hour d < 24" "minute d < 60" "second d < 60" "microsecond d < 1000000"
  shows "0 \<le> us_of_day d" and "us_of_day d < 86400000000"
  using assms unfolding us_of_day_def by auto

lemma dt_add_days:
  assumes wf: "hour d < 24" "minute d < 60" "second d < 60" "microsecond d < 1000000"
    and rng: "0 < ordinal d + n" "ordinal d + n \<le> MAXORDINAL"
  shows "dt_add d (timedelta_days n) = Inr (d\<lparr>ordinal := ordinal d + n\<rparr>)"
proof -
  define tod where "tod = us_of_day d"
  have tod: "0 \<le> tod" "tod < 86400000000"
    using us_of_day_bounds [OF wf] unfolding tod_def by auto
  have t: "to_us d + timedelta_days n = tod + (ordinal d + n) * 86400000000"
    unfolding to_us_def timedelta_days_def US_PER_DAY_def tod_def by (simp add: algebra_simps)
  have d1: "(tod + (ordinal d + n) * 86400000000) div 86400000000 = ordinal d + n"
    using tod by simp
  have m1: "(tod + (ordinal d + n) * 86400000000) mod 86400000000 = tod"
    using tod by (simp only: mod_mult_self1 mod_pos_pos_trivial)
  define sod where "sod = (int (hour d) * 60 + int (minute d)) * 60 + int (second d)"
  have tod2: "tod = int (microsecond d) + sod * 1000000"
    unfolding tod_def us_of_day_def sod_def by simp
  have s1: "tod div 1000000 = sod" using wf unfolding tod2 by simp
  have s2: "tod mod 1000000 = int (microsecond d)" using wf unfolding tod2 by simp
  have sod2: "sod = (int (minute d) * 60 + int (second d)) + int (hour d) * 3600"
    unfolding sod_def by simp
  have h1: "sod div 3600 = int (hour d)" using wf unfolding sod2 by simp
  have h2: "sod mod 3600 = int (minute d) * 60 + int (second d)" using wf unfolding sod2 by simp
  have r1: "(int (minute d) * 60 + int (second d)) div 60 = int (minute d)" using wf by simp
  have r2: "(int (minute d) * 60 + int (second d)) mod 60 = int (second d)" using wf by simp
  show ?thesis
    unfolding dt_add_def Let_def t US_PER_DAY_def d1 m1 s1 s2 h1 h2 r1 r2
    using rng by simp
qed

lemma us_of_day_less:
  assumes "hour a < 24" "minute a < 60" "second a < 60" "microsecond a < 1000000"
      "hour b < 24" "minute b < 60" "second b < 60" "microsecond b < 1000000"
  shows "us_of_day a < us_of_day b \<longleftrightarrow> (hour a < hour b \<or> (hour a = hour b \<and>
       (minute a < minute b \<or> (minute a = minute b \<and>
        (second a < second b \<or> (second a = second b \<and> microsecond a < microsecond b))))))"
  using assms unfolding us_of_day_def by auto

lemma dt_less_to_us:
  assumes a: "hour a < 24" "minute a < 60" "second a < 60" "microsecond a < 1000000"
      and b: "hour b < 24" "minute b < 60" "second b < 60" "microsecond b < 1000000"
  shows "dt_less a b \<longleftrightarrow> to_us a < to_us b"
proof -
  have ba: "0 \<le> us_of_day a" "us_of_day a < 86400000000" using us_of_day_bounds [OF a] by auto
  have bb: "0 \<le> us_of_day b" "us_of_day b < 86400000000" using us_of_day_bounds [OF b] by auto
  have "to_us a < to_us b \<longleftrightarrow>
        ordinal a < ordinal b \<or> (ordinal a = ordinal b \<and> us_of_day a < us_of_day b)"
    using ba bb unfolding to_us_def US_PER_DAY_def by auto
  then show ?thesis
    unfolding dt_less_def us_of_day_less [OF a b, symmetric] by simp
qed

section \<open>Scheduler\<close>

lemma sum_update:
  "sum_list (map snd (AList.update k (dict_get al k 0 + 1) al)) = sum_list (map snd al) + (1::int)"
  by (induction al) (auto simp: dict_get_def)

lemma update_success_data:
  "data (snd (update_success io ts s)) =
     \<lparr>hours = AList.update (str_nat (hour ts)) (dict_get (hours (data s)) (str_nat (hour ts)) 0 + 1) (hours (data s)),
      timestamps = timestamps (data s) @ [isoformat ts]\<rparr>"
  by (cases io) (simp_all add: update_success_def save_state_def Let_def)

lemma dict_get_update:
  "dict_get (AList.update k v al) k' dflt = (if k' = k then v else dict_get al k' dflt)"
  by (simp add: dict_get_def update_conv')

text \<open>
  Claim C10. \<open>update_success\<close> preserves the invariant that the counts of \<open>hours\<close> add up
  to the number of timestamps: from any state that satisfies it, one call appends exactly one
  timestamp and adds one to the bucket of the timestamp's hour, leaving every other bucket as
  it was. This holds whether or not the state file can be written.
\<close>

theorem update_success_invariant:
  assumes "sched_inv (data s)"
  shows "sched_inv (data (snd (update_success io ts s)))
     \<and> timestamps (data (snd (update_success io ts s))) = timestamps (data s) @ [isoformat ts]
     \<and> (\<forall>k. dict_get (hours (data (snd (update_success io ts s)))) k 0
            = dict_get (hours (data s)) k 0 + (if k = str_nat (hour ts) then 1 else 0))"
proof -
  have "sched_inv (data (snd (update_success io ts s)))"
    using assms unfolding update_success_data sched_inv_def
    by (simp add: sum_update distinct_update)
  moreover have "\<forall>k. dict_get (hours (data (snd (update_success io ts s)))) k 0
            = dict_get (hours (data s)) k 0 + (if k = str_nat (hour ts) then 1 else 0)"
    unfolding update_success_data by (simp add: dict_get_update)
  ultimately show ?thesis unfolding update_success_data by simp
qed

theorem update_success_invariant_witness:
  "sched_inv (data (init_scheduler Missing))
   \<and> sched_inv (data (snd (update_success None
         \<lparr>ordinal = 738890, hour = 14, minute = 5, second = 0, microsecond = 0\<rparr> (init_scheduler Missing))))
   \<and> timestamps (data (snd (update_success None
         \<lparr>ordinal = 738890, hour = 14, minute = 5, second = 0, microsecond = 0\<rparr> (init_scheduler Missing))))
       = [''2024-01-05T14:05:00'']"
proof -
  have f: "sched_inv (data (init_scheduler Missing))"
    by (simp add: sched_inv_def init_scheduler_def load_state_def fresh_state_def)
  have i: "isoformat \<lparr>ordinal = 738890, hour = 14, minute = 5, second = 0, microsecond = 0\<rparr>
      = ''2024-01-05T14:05:00''"
    by code_simp
  have t: "timestamps (data (init_scheduler Missing)) = []"
    by (simp add: init_scheduler_def load_state_def fresh_state_def)
  note u = update_success_invariant [OF f, of None
      "\<lparr>ordinal = 738890, hour = 14, minute = 5, second = 0, microsecond = 0\<rparr>"]
  have u1: "sched_inv (data (snd (update_success None
         \<lparr>ordinal = 738890, hour = 14, minute = 5, second = 0, microsecond = 0\<rparr> (init_scheduler Missing))))"
    using u by (rule conjunct1)
  have u2: "timestamps (data (snd (update_success None
         \<lparr>ordinal = 738890, hour = 14, minute = 5, second = 0, microsecond = 0\<rparr> (init_scheduler Missing))))
       = timestamps (data (init_scheduler Missing))
         @ [isoformat \<lparr>ordinal = 738890, hour = 14, minute = 5, second = 0, microsecond = 0\<rparr>]"
    using u by (rule conjunct1 [OF conjunct2])
  show ?thesis
    unfolding u2 t i using f u1 by simp
qed

lemma randint_range: "a \<le> b \<Longrightarrow> a \<le> randint a b r \<and> randint a b r \<le> b"
proof -
  assume ab: "a \<le> b"
  then have pos: "0 < nat (b - a + 1)" by simp
  have "r mod nat (b - a + 1) < nat (b - a + 1)"
    using pos by (rule mod_less_divisor)
  then have "int (r mod nat (b - a + 1)) < b - a + 1"
    using ab by linarith
  then show ?thesis unfolding randint_def by simp
qed

text \<open>
  Claim C8. With no recorded timestamps, \<open>get_next_run_time\<close> returns a datetime on the day
  after the current one, with an hour between 9 and 17 (both included), minute and second 0.
\<close>

theorem get_next_run_time_empty_state:
  assumes "timestamps sd = []" and "wf_datetime (clock 0)" and "ordinal (clock 0) < MAXORDINAL"
  shows "\<exists>t. get_next_run_time clock r1 r2 trend sd = Inr t
           \<and> ordinal t = ordinal (clock 0) + 1
           \<and> 9 \<le> hour t \<and> hour t \<le> 17 \<and> minute t = 0 \<and> second t = 0
           \<and> microsecond t = microsecond (clock 0)"
proof -
  define h where "h = randint 9 17 r1"
  have hr: "9 \<le> h" "h \<le> 17" using randint_range [of 9 17 r1] unfolding h_def by auto
  define t0 where "t0 = (clock 0)\<lparr>hour := nat h, minute := 0, second := 0\<rparr>"
  have rep: "dt_replace (clock 0) h 0 0 = Inr t0"
    using hr unfolding dt_replace_def t0_def by simp
  have add: "dt_add t0 (timedelta_days 1) = Inr (t0\<lparr>ordinal := ordinal t0 + 1\<rparr>)"
    using assms(2,3) hr unfolding t0_def wf_datetime_def
    by (intro dt_add_days) auto
  have "get_next_run_time clock r1 r2 trend sd = Inr (t0\<lparr>ordinal := ordinal t0 + 1\<rparr>)"
    using assms(1) rep add unfolding get_next_run_time_def Let_def h_def[symmetric] bind_err_def by simp
  then show ?thesis using hr unfolding t0_def by auto
qed


theorem get_next_run_time_empty_state_witness:
  "timestamps fresh_state = []
   \<and> wf_datetime \<lparr>ordinal = 738890, hour = 14, minute = 5, second = 30, microsecond = 7\<rparr>
   \<and> get_next_run_time (\<lambda>k. \<lparr>ordinal = 738890, hour = 14, minute = 5, second = 30, microsecond = 7\<rparr>)
         3 0 (Inr 0) fresh_state
       = Inr \<lparr>ordinal = 738891, hour = 12, minute = 0, second = 0, microsecond = 7\<rparr>"
proof -
  define now0 where "now0 = \<lparr>ordinal = 738890, hour = 14, minute = 5, second = 30, microsecond = 7\<rparr>"
  have e: "timestamps fresh_state = []" by (simp add: fresh_state_def)
  have w: "wf_datetime ((\<lambda>k::nat. now0) 0)" by (simp add: wf_datetime_def MAXORDINAL_def now0_def)
  have m: "ordinal ((\<lambda>k::nat. now0) 0) < MAXORDINAL" by (simp add: MAXORDINAL_def now0_def)
  note main = get_next_run_time_empty_state [OF e w m, of 3 0 "Inr 0"]
  have h: "get_next_run_time (\<lambda>k. now0) 3 0 (Inr 0) fresh_state
      = bind_err (dt_replace now0 12 0 0) (\<lambda>t. dt_add t (timedelta_days 1))"
    by (simp add: get_next_run_time_def fresh_state_def randint_def)
  have v: "get_next_run_time (\<lambda>k. now0) 3 0 (Inr 0) fresh_state
      = Inr \<lparr>ordinal = 738891, hour = 12, minute = 0, second = 0, microsecond = 7\<rparr>"
    unfolding h
    by (simp add: bind_err_def dt_replace_def dt_add_def to_us_def us_of_day_def timedelta_days_def
        US_PER_DAY_def MAXORDINAL_def now0_def Let_def)
  show ?thesis using main v e w unfolding now0_def by simp
qed

section \<open>The 30-day window\<close>

text \<open>
  Claim C4. \<open>validate_order_date\<close> is true exactly for the dates not earlier than thirty days
  before now, on the timeline of microseconds: the datetime thirty days before now is valid,
  the one thirty-one days before now is not, and an absent date is never valid.
\<close>

theorem validate_order_date_window:
  assumes "wf_datetime now" and "30 < ordinal now" and "wf_datetime d"
  shows "validate_order_date now None = Inr False
     \<and> validate_order_date now (Some d) = Inr (to_us now - timedelta_days 30 \<le> to_us d)
     \<and> validate_order_date now (Some (now\<lparr>ordinal := ordinal now - 30\<rparr>)) = Inr True
     \<and> (31 < ordinal now \<longrightarrow> validate_order_date now (Some (now\<lparr>ordinal := ordinal now - 31\<rparr>)) = Inr False)"
proof -
  define lim where "lim = now\<lparr>ordinal := ordinal now - 30\<rparr>"
  have sub: "dt_sub now (timedelta_days 30) = Inr lim"
    using assms(1,2) dt_add_days [of now "- 30"] unfolding dt_sub_def lim_def wf_datetime_def timedelta_days_def
    by simp
  have lim_us: "to_us lim = to_us now - timedelta_days 30"
    unfolding lim_def to_us_def timedelta_days_def us_of_day_def by (simp add: algebra_simps)
  have wl: "hour lim < 24" "minute lim < 60" "second lim < 60" "microsecond lim < 1000000"
    using assms(1) unfolding lim_def wf_datetime_def by auto
  have wd: "hour d < 24" "minute d < 60" "second d < 60" "microsecond d < 1000000"
    using assms(3) unfolding wf_datetime_def by auto
  have v: "\<And>x. hour x < 24 \<Longrightarrow> minute x < 60 \<Longrightarrow> second x < 60 \<Longrightarrow> microsecond x < 1000000 \<Longrightarrow>
      validate_order_date now (Some x) = Inr (to_us now - timedelta_days 30 \<le> to_us x)"
    using sub wl lim_us
    by (simp add: validate_order_date_def bind_err_def dt_ge_def dt_less_to_us not_less)
  have a: "validate_order_date now None = Inr False"
    by (simp add: validate_order_date_def)
  have b: "validate_order_date now (Some lim) = Inr True"
    using v [OF wl] lim_us by simp
  have c: "validate_order_date now (Some (now\<lparr>ordinal := ordinal now - 31\<rparr>)) = Inr False"
  proof -
    have "to_us (now\<lparr>ordinal := ordinal now - 31\<rparr>) = to_us now - timedelta_days 31"
      unfolding to_us_def timedelta_days_def us_of_day_def by (simp add: algebra_simps)
    moreover have "validate_order_date now (Some (now\<lparr>ordinal := ordinal now - 31\<rparr>))
        = Inr (to_us now - timedelta_days 30 \<le> to_us (now\<lparr>ordinal := ordinal now - 31\<rparr>))"
      using assms(1) by (intro v) (auto simp: wf_datetime_def)
    ultimately show ?thesis by (simp add: timedelta_days_def US_PER_DAY_def)
  qed
  show ?thesis using a b c v [OF wd] unfolding lim_def by simp
qed


theorem validate_order_date_window_witness:
  "wf_datetime \<lparr>ordinal = 738890, hour = 14, minute = 5, second = 30, microsecond = 7\<rparr>
   \<and> validate_order_date \<lparr>ordinal = 738890, hour = 14, minute = 5, second = 30, microsecond = 7\<rparr>
        (Some \<lparr>ordinal = 738860, hour = 14, minute = 5, second = 30, microsecond = 7\<rparr>) = Inr True
   \<and> validate_order_date \<lparr>ordinal = 738890, hour = 14, minute = 5, second = 30, microsecond = 7\<rparr>
        (Some \<lparr>ordinal = 738859, hour = 14, minute = 5, second = 30, microsecond = 7\<rparr>) = Inr False"
proof -
  define now0 where "now0 = \<lparr>ordinal = 738890, hour = 14, minute = 5, second = 30, microsecond = 7\<rparr>"
  have w: "wf_datetime now0" by (simp add: wf_datetime_def MAXORDINAL_def now0_def)
  have o: "30 < ordinal now0" by (simp add: now0_def)
  from validate_order_date_window [OF w o w]
  show ?thesis unfolding now0_def using w [unfolded now0_def] by simp
qed

section \<open>Properties of \<open>process_order\<close>\<close>

text \<open>
  An order as \<open>get_orders\<close> builds it has an identifier, which is not a \<open>WebElement\<close>.
\<close>

definition has_id :: "pydict \<Rightarrow> bool" where
  "has_id d = (case map_of d ''id'' of Some v \<Rightarrow> \<not> is_webelement v | None \<Rightarrow> False)"

lemma has_id_iff: "has_id d \<longleftrightarrow> (\<exists>v. map_of d ''id'' = Some v \<and> \<not> is_webelement v)"
  by (simp add: has_id_def split: option.splits)

text \<open>
  The value one attempt assigns to \<open>result\<close>, read off its environment: \<open>True\<close> after a
  confirmed adjustment whose success the scheduler could record, \<open>False\<close> when the site
  refuses the adjustment, none when the page does not load, a step raises, or the attempt stays
  undecided.
\<close>

definition decided :: "attempt_env \<Rightarrow> bool option \<Rightarrow> bool option" where
  "decided e ar = (case ar of Some True \<Rightarrow> (if sched_write e = None then Some True else None)
                    | Some False \<Rightarrow> Some False | None \<Rightarrow> None)"

definition attempt_result :: "attempt_env \<Rightarrow> bool option" where
  "attempt_result e =
     (if \<not> details_page e then None
      else case tracking e of
        Inl err \<Rightarrow> None
      | Inr tracking_info \<Rightarrow> decided e (fst (attempt_price_adjustment (sub_attempts e) [])))"

lemma clean_keeps:
  assumes "map_of d k = Some v" "\<not> is_webelement v" "k \<noteq> ''element''"
  shows "map_of (clean_order d) k = Some v"
proof -
  have "map_of (AList.delete ''element'' d) k = Some v"
    using assms by (simp add: delete_conv')
  then show ?thesis
    unfolding clean_order_def using assms(2) by (intro map_of_filter_keep) simp_all
qed

lemma convert_keeps:
  "convert_date_obj d = Inr d' \<Longrightarrow> k \<noteq> ''date_obj'' \<Longrightarrow> map_of d' k = map_of d k"
  by (auto simp: convert_date_obj_def update_conv' split: option.splits if_splits pyval.splits)

lemma save_keeps:
  assumes "map_of d k = Some v" "\<not> is_webelement v" "k \<noteq> ''element''" "k \<noteq> ''date_obj''"
  shows "map_of (fst (snd (save_order_data io d f))) k = Some v"
  using clean_keeps [OF assms(1-3)] assms(4)
  by (auto simp: save_order_data_def Let_def convert_keeps split: sum.splits option.splits)

lemma flow_keeps:
  "k \<noteq> ''refund_amount'' \<Longrightarrow> map_of (snd (handle_price_adjustment_flow flow d)) k = map_of d k"
  by (auto simp: handle_price_adjustment_flow_def update_conv' split: flow_outcome.splits option.splits)

lemma pa_loop_keeps:
  "k \<noteq> ''refund_amount'' \<Longrightarrow> map_of (snd (price_adjustment_loop env d ks)) k = map_of d k"
proof (induction ks)
  case Nil
  then show ?case by simp
next
  case (Cons a ks)
  have f: "\<And>flow. map_of (snd (case handle_price_adjustment_flow flow d of (r, order') \<Rightarrow> (Some r, order'))) k = map_of d k"
    using flow_keeps [OF Cons.prems] by (simp add: case_prod_beta)
  show ?case using Cons f
    by (cases "env a") (simp_all add: Let_def)
qed

lemma apa_keeps:
  "k \<noteq> ''refund_amount'' \<Longrightarrow> map_of (snd (attempt_price_adjustment env d)) k = map_of d k"
  by (simp add: attempt_price_adjustment_def pa_loop_keeps)

lemma pa_loop_fst: "fst (price_adjustment_loop env d ks) = fst (price_adjustment_loop env d' ks)"
proof (induction ks)
  case Nil
  then show ?case by simp
next
  case (Cons a ks)
  have f: "\<And>flow. fst (case handle_price_adjustment_flow flow d of (r, order') \<Rightarrow> (Some r, order'))
      = fst (case handle_price_adjustment_flow flow d' of (r, order') \<Rightarrow> (Some r, order'))"
    by (auto simp: handle_price_adjustment_flow_def split: flow_outcome.splits option.splits)
  show ?case using Cons f
    by (cases "env a") (simp_all add: Let_def)
qed

lemma apa_fst: "fst (attempt_price_adjustment env d) = fst (attempt_price_adjustment env [])"
  unfolding attempt_price_adjustment_def by (rule pa_loop_fst)

lemma handler_keeps:
  "k \<noteq> ''last_error'' \<Longrightarrow> k \<noteq> ''adjustment_status'' \<Longrightarrow>
   map_of (fst (except_handler e (d, w, r))) k = map_of d k"
  by (simp add: except_handler_def update_conv')

lemma handler_status:
  "map_of (fst (except_handler e (d, w, r))) ''adjustment_status'' = Some (VStr ''failed'')"
  by (simp add: except_handler_def update_conv')

lemma handler_result: "snd (snd (except_handler e (d, w, r))) = r"
  by (simp add: except_handler_def)

lemma prepare_keeps:
  "k \<notin> {''tracking_info'', ''adjustment_attempted'', ''adjustment_success'', ''adjustment_status'',
         ''last_error'', ''details''} \<Longrightarrow> map_of (prepare_order e oid ti d) k = map_of d k"
  by (simp add: prepare_order_def Let_def update_conv')

lemma finish_result: "snd (snd (finish_attempt e (d, w, r))) = r"
  by (auto simp: finish_attempt_def Let_def handler_result split: prod.splits option.splits)

lemma finish_keeps:
  assumes "map_of d k = Some v" "\<not> is_webelement v"
    "k \<notin> {''element'', ''date_obj'', ''adjustment_attempted'', ''last_error'', ''adjustment_status''}"
  shows "map_of (fst (finish_attempt e (d, w, r))) k = Some v"
proof -
  define d1 where "d1 = AList.update ''adjustment_attempted'' (VBool True) d"
  have a1: "map_of d1 k = Some v" using assms by (simp add: d1_def update_conv')
  obtain saved d2 f where s: "save_order_data (orders_write e) d1 (orders_file w) = (saved, d2, f)"
    by (metis prod_cases3)
  have a2: "map_of d2 k = Some v"
    using save_keeps [OF a1 assms(2), of "orders_write e" "orders_file w"] s assms(3) by simp
  show ?thesis
    using a2 s assms(3)
    by (simp add: finish_attempt_def d1_def[symmetric] Let_def handler_keeps split: option.splits)
qed

lemma finish_status_ok:
  assumes "map_of d ''adjustment_status'' = Some (VStr s)" "txt_write e = None"
  shows "map_of (fst (finish_attempt e (d, w, r))) ''adjustment_status'' = Some (VStr s)"
proof -
  define d1 where "d1 = AList.update ''adjustment_attempted'' (VBool True) d"
  have a1: "map_of d1 ''adjustment_status'' = Some (VStr s)" using assms by (simp add: d1_def update_conv')
  obtain saved d2 f where s: "save_order_data (orders_write e) d1 (orders_file w) = (saved, d2, f)"
    by (metis prod_cases3)
  have a2: "map_of d2 ''adjustment_status'' = Some (VStr s)"
    using save_keeps [OF a1, of "orders_write e" "orders_file w"] s by simp
  show ?thesis
    using a2 s assms(2)
    by (simp add: finish_attempt_def d1_def[symmetric] Let_def)
qed

lemma finish_status_exn:
  assumes "txt_write e = Some err"
  shows "map_of (fst (finish_attempt e (d, w, r))) ''adjustment_status'' = Some (VStr ''failed'')"
  using assms
  by (auto simp: finish_attempt_def Let_def handler_status split: prod.splits)

lemma has_id_finish: "has_id d \<Longrightarrow> has_id (fst (finish_attempt e (d, w, r)))"
  unfolding has_id_iff using finish_keeps [of d "''id''" _ e w r] by auto

lemma has_id_handler: "has_id d \<Longrightarrow> has_id (fst (except_handler e (d, w, r)))"
  unfolding has_id_iff by (simp add: handler_keeps)

lemma has_id_update: "k \<noteq> ''id'' \<Longrightarrow> has_id (AList.update k v d) = has_id d"
  unfolding has_id_iff by (simp add: update_conv')

lemma record_result_None:
  "record_result e None (d, w, r) =
     finish_attempt e (AList.update ''last_error'' (VStr ''Price adjustment failed'')
        (AList.update ''adjustment_status'' (VStr ''failed'') d),
        w\<lparr>stats := (stats w)\<lparr>failures := failures (stats w) + 1\<rparr>\<rparr>, r)"
  by (simp add: record_result_def Let_def)

lemma record_result_False:
  "record_result e (Some False) (d, w, r) =
     finish_attempt e (AList.update ''adjustment_status'' (VStr ''not_available'') d,
        w\<lparr>stats := (stats w)\<lparr>adjustment_not_available := adjustment_not_available (stats w) + 1\<rparr>\<rparr>,
        Some False)"
  by (simp add: record_result_def Let_def)

lemma update_success_fst: "fst (update_success io ts s) = io"
  by (cases io) (simp_all add: update_success_def save_state_def Let_def)

lemma record_result_True_ok:
  assumes "sched_write e = None"
  shows "\<exists>w1. record_result e (Some True) (d, w, r) =
     finish_attempt e (AList.update ''adjustment_success'' (VBool True)
        (AList.update ''adjustment_status'' (VStr ''success'') d), w1, Some True)"
proof -
  define w0 where "w0 = w\<lparr>stats := (stats w)\<lparr>success := success (stats w) + 1\<rparr>\<rparr>"
  obtain s where u: "update_success (sched_write e) (success_time e) (sched w) = (None, s)"
    using update_success_fst [of "sched_write e" "success_time e" "sched w"] assms
    by (cases "update_success (sched_write e) (success_time e) (sched w)") simp
  have "record_result e (Some True) (d, w, r) =
     finish_attempt e (AList.update ''adjustment_success'' (VBool True)
        (AList.update ''adjustment_status'' (VStr ''success'') d), w0\<lparr>sched := s\<rparr>, Some True)"
    using u by (simp add: record_result_def Let_def w0_def)
  then show ?thesis by blast
qed

lemma record_result_True_exn:
  assumes "sched_write e = Some err"
  shows "\<exists>w1. record_result e (Some True) (d, w, r) = except_handler err (d, w1, r)"
proof -
  define w0 where "w0 = w\<lparr>stats := (stats w)\<lparr>success := success (stats w) + 1\<rparr>\<rparr>"
  obtain s where u: "update_success (sched_write e) (success_time e) (sched w) = (Some err, s)"
    using update_success_fst [of "sched_write e" "success_time e" "sched w"] assms
    by (cases "update_success (sched_write e) (success_time e) (sched w)") simp
  have "record_result e (Some True) (d, w, r) = except_handler err (d, w0\<lparr>sched := s\<rparr>, r)"
    using u by (simp add: record_result_def Let_def w0_def)
  then show ?thesis by blast
qed

lemma record_result_props:
  assumes "has_id d"
  shows "has_id (fst (record_result e ar (d, w, None)))"
    and "snd (snd (record_result e ar (d, w, None))) = decided e ar"
    and "decided e ar = Some False \<Longrightarrow> txt_write e = None \<Longrightarrow>
         map_of (fst (record_result e ar (d, w, None))) ''adjustment_status'' = Some (VStr ''not_available'')"
    and "decided e ar = None \<Longrightarrow>
         map_of (fst (record_result e ar (d, w, None))) ''adjustment_status'' = Some (VStr ''failed'')"
proof -
  consider (n) "ar = None" | (f) "ar = Some False" | (t) "ar = Some True" "sched_write e = None"
    | (x) err where "ar = Some True" "sched_write e = Some err"
    by (cases ar; cases "sched_write e"; auto)
  then have "has_id (fst (record_result e ar (d, w, None)))
    \<and> snd (snd (record_result e ar (d, w, None))) = decided e ar
    \<and> (decided e ar = Some False \<longrightarrow> txt_write e = None \<longrightarrow>
         map_of (fst (record_result e ar (d, w, None))) ''adjustment_status'' = Some (VStr ''not_available''))
    \<and> (decided e ar = None \<longrightarrow>
         map_of (fst (record_result e ar (d, w, None))) ''adjustment_status'' = Some (VStr ''failed''))"
  proof cases
    case n
    have st: "map_of (fst (record_result e None (d, w, None))) ''adjustment_status'' = Some (VStr ''failed'')"
      unfolding record_result_None
      by (cases "txt_write e") (simp_all add: finish_status_ok finish_status_exn update_conv')
    show ?thesis using assms st unfolding n
      by (simp add: record_result_None has_id_finish has_id_update finish_result decided_def)
  next
    case f
    have st: "txt_write e = None \<longrightarrow> map_of (fst (record_result e (Some False) (d, w, None))) ''adjustment_status'' = Some (VStr ''not_available'')"
      unfolding record_result_False by (simp add: finish_status_ok update_conv')
    show ?thesis using assms st unfolding f
      by (simp add: record_result_False has_id_finish has_id_update finish_result decided_def)
  next
    case t
    obtain w1 where r: "record_result e (Some True) (d, w, None) =
       finish_attempt e (AList.update ''adjustment_success'' (VBool True)
        (AList.update ''adjustment_status'' (VStr ''success'') d), w1, Some True)"
      using record_result_True_ok [OF t(2)] by blast
    show ?thesis using assms unfolding t(1) r
      by (simp add: has_id_finish has_id_update finish_result decided_def t(2))
  next
    case x
    obtain w1 where r: "record_result e (Some True) (d, w, None) = except_handler err (d, w1, None)"
      using record_result_True_exn [OF x(2)] by blast
    show ?thesis using assms unfolding x(1) r
      by (simp add: has_id_handler handler_result handler_status decided_def x(2))
  qed
  then show "has_id (fst (record_result e ar (d, w, None)))"
    and "snd (snd (record_result e ar (d, w, None))) = decided e ar"
    and "decided e ar = Some False \<Longrightarrow> txt_write e = None \<Longrightarrow>
         map_of (fst (record_result e ar (d, w, None))) ''adjustment_status'' = Some (VStr ''not_available'')"
    and "decided e ar = None \<Longrightarrow>
         map_of (fst (record_result e ar (d, w, None))) ''adjustment_status'' = Some (VStr ''failed'')"
    by auto
qed

lemma has_id_prepare: "has_id d \<Longrightarrow> has_id (prepare_order e oid ti d)"
  unfolding has_id_iff by (simp add: prepare_keeps)

lemma has_id_apa: "has_id d \<Longrightarrow> has_id (snd (attempt_price_adjustment env d))"
  unfolding has_id_iff by (simp add: apa_keeps)

lemma body_nav_fail:
  assumes "has_id d" "\<not> details_page e"
  shows "attempt_body e n (d, w, r) = (None, (AList.update ''attempts'' (VInt (n + 1)) d, w, r))"
  using assms unfolding has_id_iff
  by (auto simp: attempt_body_def Let_def update_conv')

lemma body_props:
  assumes "has_id d"
  shows "fst (attempt_body e n (d, w, None)) = None"
    and "has_id (fst (snd (attempt_body e n (d, w, None))))"
    and "snd (snd (snd (attempt_body e n (d, w, None)))) = attempt_result e"
    and "attempt_result e = Some False \<Longrightarrow> txt_write e = None \<Longrightarrow>
         map_of (fst (snd (attempt_body e n (d, w, None)))) ''adjustment_status'' = Some (VStr ''not_available'')"
    and "attempt_result e = None \<Longrightarrow> details_page e \<Longrightarrow>
         map_of (fst (snd (attempt_body e n (d, w, None)))) ''adjustment_status'' = Some (VStr ''failed'')"
proof -
  define d1 where "d1 = AList.update ''attempts'' (VInt (n + 1)) d"
  have h1: "has_id d1" using assms by (simp add: d1_def has_id_update)
  then obtain oid where oid: "map_of d1 ''id'' = Some oid" unfolding has_id_iff by blast
  have "fst (attempt_body e n (d, w, None)) = None
    \<and> has_id (fst (snd (attempt_body e n (d, w, None))))
    \<and> snd (snd (snd (attempt_body e n (d, w, None)))) = attempt_result e
    \<and> (attempt_result e = Some False \<longrightarrow> txt_write e = None \<longrightarrow>
         map_of (fst (snd (attempt_body e n (d, w, None)))) ''adjustment_status'' = Some (VStr ''not_available''))
    \<and> (attempt_result e = None \<longrightarrow> details_page e \<longrightarrow>
         map_of (fst (snd (attempt_body e n (d, w, None)))) ''adjustment_status'' = Some (VStr ''failed''))"
  proof (cases "details_page e")
    case False
    then show ?thesis using h1 oid
      by (simp add: attempt_body_def d1_def[symmetric] attempt_result_def)
  next
    case True
    show ?thesis
    proof (cases "tracking e")
      case (Inl err)
      then show ?thesis using h1 oid True
        by (simp add: attempt_body_def d1_def[symmetric] attempt_result_def has_id_handler
            handler_result handler_status)
    next
      case (Inr ti)
      obtain ar d8 where apa: "attempt_price_adjustment (sub_attempts e) (prepare_order e oid ti d1) = (ar, d8)"
        by (cases "attempt_price_adjustment (sub_attempts e) (prepare_order e oid ti d1)")
      have h8: "has_id d8"
        using has_id_apa [OF has_id_prepare [OF h1], of "sub_attempts e" e oid ti] apa by simp
      have ar: "ar = fst (attempt_price_adjustment (sub_attempts e) [])"
        using apa_fst [of "sub_attempts e" "prepare_order e oid ti d1"] apa by simp
      have res: "attempt_result e = decided e ar"
        using True Inr ar by (simp add: attempt_result_def)
      have body: "attempt_body e n (d, w, None) = (None, record_result e ar (d8, w, None))"
        using oid True Inr apa by (simp add: attempt_body_def d1_def[symmetric])
      show ?thesis
        unfolding body res using record_result_props [OF h8, of e ar w] by simp
    qed
  qed
  then show "fst (attempt_body e n (d, w, None)) = None"
    and "has_id (fst (snd (attempt_body e n (d, w, None))))"
    and "snd (snd (snd (attempt_body e n (d, w, None)))) = attempt_result e"
    and "attempt_result e = Some False \<Longrightarrow> txt_write e = None \<Longrightarrow>
         map_of (fst (snd (attempt_body e n (d, w, None)))) ''adjustment_status'' = Some (VStr ''not_available'')"
    and "attempt_result e = None \<Longrightarrow> details_page e \<Longrightarrow>
         map_of (fst (snd (attempt_body e n (d, w, None)))) ''adjustment_status'' = Some (VStr ''failed'')"
    by auto
qed

text \<open>The loop runs until the first attempt that decides, or until the fifth.\<close>

lemma loop_stops:
  assumes "has_id d" and "attempts_of d = Some n" and "0 \<le> n"
    and "n + 1 + int m = k" and "k \<le> 5"
    and "\<forall>j. n < j \<and> j < k \<longrightarrow> attempt_result (env (nat j)) = None"
    and "k = 5 \<or> attempt_result (env (nat k)) \<noteq> None"
  shows "\<exists>d0 w0. has_id d0 \<and>
           process_order_loop env (d, w, None) = attempt_body (env (nat k)) (k - 1) (d0, w0, None)"
  using assms
proof (induction m arbitrary: n d w)
  case 0
  then have k: "k = n + 1" by simp
  obtain x d' w' r' where b: "attempt_body (env (nat (n + 1))) n (d, w, None) = (x, d', w', r')"
    by (metis prod_cases4)
  have x: "x = None" using body_props(1) [OF "0.prems"(1), of "env (nat (n + 1))" n w] b by simp
  have r: "r' = attempt_result (env (nat k))"
    using body_props(3) [OF "0.prems"(1), of "env (nat (n + 1))" n w] b k by simp
  have a: "attempts_of d' = Some k"
    using attempts_of_body [of "env (nat (n + 1))" n d w None] b k by simp
  have stop: "process_order_loop env (d', w', r') = (None, (d', w', r'))"
    using a r "0.prems"(7) by (subst process_order_loop.simps) (auto simp: max_attempts_def)
  have "process_order_loop env (d, w, None) = (None, (d', w', r'))"
    using "0.prems"(2,5) k b x stop
    by (subst process_order_loop.simps) (simp add: max_attempts_def)
  then have "process_order_loop env (d, w, None) = attempt_body (env (nat k)) (k - 1) (d, w, None)"
    using b x k by simp
  then show ?case using "0.prems"(1) by blast
next
  case (Suc m)
  then have nk: "n + 1 < k" by simp
  obtain x d' w' r' where b: "attempt_body (env (nat (n + 1))) n (d, w, None) = (x, d', w', r')"
    by (metis prod_cases4)
  have x: "x = None" using body_props(1) [OF Suc.prems(1), of "env (nat (n + 1))" n w] b by simp
  have "attempt_result (env (nat (n + 1))) = None"
    using Suc.prems(6) nk by simp
  then have r: "r' = None"
    using body_props(3) [OF Suc.prems(1), of "env (nat (n + 1))" n w] b by simp
  have h: "has_id d'" using body_props(2) [OF Suc.prems(1), of "env (nat (n + 1))" n w] b by simp
  have a: "attempts_of d' = Some (n + 1)"
    using attempts_of_body [of "env (nat (n + 1))" n d w None] b by simp
  have step: "process_order_loop env (d, w, None) = process_order_loop env (d', w', None)"
    using Suc.prems(2,5) nk b x r
    by (subst process_order_loop.simps) (simp add: max_attempts_def)
  have "\<exists>d0 w0. has_id d0 \<and>
           process_order_loop env (d', w', None) = attempt_body (env (nat k)) (k - 1) (d0, w0, None)"
    using Suc.prems by (intro Suc.IH [OF h a]) auto
  then show ?case unfolding step .
qed

lemma process_order_final:
  assumes "has_id order" and "1 \<le> k" and "k \<le> 5"
    and "\<forall>j. 1 \<le> j \<and> j < k \<longrightarrow> attempt_result (env j) = None"
    and "k = 5 \<or> attempt_result (env k) \<noteq> None"
  shows "\<exists>d0 w0. has_id d0 \<and>
           process_order env order w =
             (Inr (attempt_result (env k) = Some True),
              fst (snd (attempt_body (env k) (int k - 1) (d0, w0, None))),
              fst (snd (snd (attempt_body (env k) (int k - 1) (d0, w0, None)))))"
proof -
  define d where "d = AList.update ''attempts'' (VInt 0) order"
  have h: "has_id d" using assms(1) by (simp add: d_def has_id_update)
  have a: "attempts_of d = Some 0" by (simp add: d_def attempts_of_def update_conv')
  have q: "\<forall>j::int. 0 < j \<and> j < int k \<longrightarrow> attempt_result (env (nat j)) = None"
  proof (intro allI impI)
    fix j :: int assume "0 < j \<and> j < int k"
    then have "1 \<le> nat j \<and> nat j < k" by auto
    then show "attempt_result (env (nat j)) = None" using assms(4) by blast
  qed
  have e: "int k = 5 \<or> attempt_result (env (nat (int k))) \<noteq> None" using assms(5) by auto
  have m: "0 + 1 + int (k - 1) = int k" using assms(2) by simp
  have k5: "int k \<le> 5" using assms(3) by simp
  obtain d0 w0 where h0: "has_id d0"
    and l: "process_order_loop env (d, w, None) = attempt_body (env (nat (int k))) (int k - 1) (d0, w0, None)"
    using loop_stops [OF h a _ m k5 q e, of w] by auto
  obtain x d' w' r' where b: "attempt_body (env k) (int k - 1) (d0, w0, None) = (x, d', w', r')"
    by (metis prod_cases4)
  have x: "x = None" using body_props(1) [OF h0, of "env k" "int k - 1" w0] b by simp
  have r: "r' = attempt_result (env k)" using body_props(3) [OF h0, of "env k" "int k - 1" w0] b by simp
  have "process_order env order w = (Inr (attempt_result (env k) = Some True), d', w')"
    using l b x r by (simp add: process_order_def d_def[symmetric])
  then have "process_order env order w =
             (Inr (attempt_result (env k) = Some True),
              fst (snd (attempt_body (env k) (int k - 1) (d0, w0, None))),
              fst (snd (snd (attempt_body (env k) (int k - 1) (d0, w0, None)))))"
    using b by simp
  then show ?thesis using h0 by blast
qed

lemma first_decided:
  assumes "1 \<le> k" "k \<le> (5::nat)" "attempt_result (env k) \<noteq> None"
  shows "\<exists>k'. 1 \<le> k' \<and> k' \<le> 5 \<and> attempt_result (env k') \<noteq> None
           \<and> (\<forall>j. 1 \<le> j \<and> j < k' \<longrightarrow> attempt_result (env j) = None)"
proof -
  define P where "P = (\<lambda>i. 1 \<le> i \<and> i \<le> 5 \<and> attempt_result (env i) \<noteq> None)"
  have Pk: "P k" using assms by (simp add: P_def)
  define k' where "k' = (LEAST i. P i)"
  have "P k'" unfolding k'_def using Pk by (rule LeastI)
  moreover have "\<forall>j. 1 \<le> j \<and> j < k' \<longrightarrow> attempt_result (env j) = None"
  proof (intro allI impI)
    fix j assume j: "1 \<le> j \<and> j < k'"
    then have "\<not> P j" unfolding k'_def using not_less_Least by blast
    moreover have "j \<le> 5" using j \<open>P k'\<close> by (simp add: P_def)
    ultimately show "attempt_result (env j) = None" using j by (simp add: P_def)
  qed
  ultimately show ?thesis unfolding P_def by blast
qed

text \<open>
  Claim C5. \<open>process_order\<close> makes between one and five attempts. It stops at the first
  attempt that decides (adjustment confirmed, or refused by the site) and returns that
  decision; attempts that raise or stay undecided before it do not end the loop. Five
  undecided attempts return \<open>False\<close>. A refusal is recorded as \<open>not_available\<close>, five
  undecided attempts as \<open>failed\<close>; in particular a refusal on the first attempt ends with
  \<open>attempts = 1\<close> and status \<open>not_available\<close>. \<open>True\<close> is returned only after a confirmed
  adjustment.
\<close>

theorem process_order_attempts:
  assumes "has_id order"
  shows "(\<exists>n. attempts_of (fst (snd (process_order env order w))) = Some n \<and> 1 \<le> n \<and> n \<le> 5)
    \<and> (\<forall>k b. 1 \<le> k \<and> k \<le> 5 \<and> attempt_result (env k) = Some b
               \<and> (\<forall>j. 1 \<le> j \<and> j < k \<longrightarrow> attempt_result (env j) = None)
         \<longrightarrow> fst (process_order env order w) = Inr b
           \<and> attempts_of (fst (snd (process_order env order w))) = Some (int k)
           \<and> (\<not> b \<and> txt_write (env k) = None \<longrightarrow>
                map_of (fst (snd (process_order env order w))) ''adjustment_status''
                  = Some (VStr ''not_available'')))
    \<and> ((\<forall>j. 1 \<le> j \<and> j \<le> 5 \<longrightarrow> attempt_result (env j) = None)
         \<longrightarrow> fst (process_order env order w) = Inr False
           \<and> attempts_of (fst (snd (process_order env order w))) = Some 5
           \<and> (details_page (env 5) \<longrightarrow>
                map_of (fst (snd (process_order env order w))) ''adjustment_status''
                  = Some (VStr ''failed'')))
    \<and> (fst (process_order env order w) = Inr True
         \<longrightarrow> (\<exists>k. 1 \<le> k \<and> k \<le> 5 \<and> attempt_result (env k) = Some True))"
proof -
  have A: "fst (process_order env order w) = Inr b
           \<and> attempts_of (fst (snd (process_order env order w))) = Some (int k)
           \<and> (\<not> b \<and> txt_write (env k) = None \<longrightarrow>
                map_of (fst (snd (process_order env order w))) ''adjustment_status''
                  = Some (VStr ''not_available''))"
    if k1: "1 \<le> k" and k5: "k \<le> 5" and kb: "attempt_result (env k) = Some b"
      and kn: "\<forall>j. 1 \<le> j \<and> j < k \<longrightarrow> attempt_result (env j) = None" for k b
  proof -
    obtain d0 w0 where h0: "has_id d0" and p: "process_order env order w =
             (Inr (attempt_result (env k) = Some True),
              fst (snd (attempt_body (env k) (int k - 1) (d0, w0, None))),
              fst (snd (snd (attempt_body (env k) (int k - 1) (d0, w0, None)))))"
      using process_order_final [OF assms k1 k5 kn, of w] kb by auto
    have "attempts_of (fst (snd (attempt_body (env k) (int k - 1) (d0, w0, None)))) = Some (int k)"
      using attempts_of_body [of "env k" "int k - 1" d0 w0 None] by simp
    moreover have "\<not> b \<and> txt_write (env k) = None \<longrightarrow>
        map_of (fst (snd (attempt_body (env k) (int k - 1) (d0, w0, None)))) ''adjustment_status''
          = Some (VStr ''not_available'')"
      using body_props(4) [OF h0, of "env k" "int k - 1" w0] kb by auto
    ultimately show ?thesis unfolding p using kb by simp
  qed
  have B: "fst (process_order env order w) = Inr False
           \<and> attempts_of (fst (snd (process_order env order w))) = Some 5
           \<and> (details_page (env 5) \<longrightarrow>
                map_of (fst (snd (process_order env order w))) ''adjustment_status''
                  = Some (VStr ''failed''))"
    if n: "\<forall>j. 1 \<le> j \<and> j \<le> 5 \<longrightarrow> attempt_result (env j) = None"
  proof -
    have n5: "attempt_result (env 5) = None" using n by simp
    have q: "\<forall>j. 1 \<le> j \<and> j < 5 \<longrightarrow> attempt_result (env j) = None" using n by simp
    obtain d0 w0 where h0: "has_id d0" and p: "process_order env order w =
             (Inr (attempt_result (env 5) = Some True),
              fst (snd (attempt_body (env 5) (int 5 - 1) (d0, w0, None))),
              fst (snd (snd (attempt_body (env 5) (int 5 - 1) (d0, w0, None)))))"
      using process_order_final [OF assms _ _ q, of w] by auto
    have "attempts_of (fst (snd (attempt_body (env 5) (int 5 - 1) (d0, w0, None)))) = Some 5"
      using attempts_of_body [of "env 5" "int 5 - 1" d0 w0 None] by simp
    moreover have "details_page (env 5) \<longrightarrow>
        map_of (fst (snd (attempt_body (env 5) (int 5 - 1) (d0, w0, None)))) ''adjustment_status''
          = Some (VStr ''failed'')"
      using body_props(5) [OF h0, of "env 5" "int 5 - 1" w0] n5 by auto
    ultimately show ?thesis unfolding p using n5 by simp
  qed
  have cases: "(\<exists>k b. 1 \<le> k \<and> k \<le> 5 \<and> attempt_result (env k) = Some b
               \<and> (\<forall>j. 1 \<le> j \<and> j < k \<longrightarrow> attempt_result (env j) = None))
        \<or> (\<forall>j. 1 \<le> j \<and> j \<le> 5 \<longrightarrow> attempt_result (env j) = None)"
    using first_decided [of _ env] by (metis not_Some_eq)
  have C: "\<exists>n. attempts_of (fst (snd (process_order env order w))) = Some n \<and> 1 \<le> n \<and> n \<le> 5"
    using cases
  proof
    assume "\<exists>k b. 1 \<le> k \<and> k \<le> 5 \<and> attempt_result (env k) = Some b
               \<and> (\<forall>j. 1 \<le> j \<and> j < k \<longrightarrow> attempt_result (env j) = None)"
    then obtain k b where kb: "1 \<le> k" "k \<le> 5" "attempt_result (env k) = Some b"
        "\<forall>j. 1 \<le> j \<and> j < k \<longrightarrow> attempt_result (env j) = None" by blast
    show ?thesis using A [OF kb] kb(1,2) by simp
  next
    assume "\<forall>j. 1 \<le> j \<and> j \<le> 5 \<longrightarrow> attempt_result (env j) = None"
    then show ?thesis using B by simp
  qed
  have D: "\<exists>k. 1 \<le> k \<and> k \<le> 5 \<and> attempt_result (env k) = Some True"
    if t: "fst (process_order env order w) = Inr True"
    using cases
  proof
    assume "\<exists>k b. 1 \<le> k \<and> k \<le> 5 \<and> attempt_result (env k) = Some b
               \<and> (\<forall>j. 1 \<le> j \<and> j < k \<longrightarrow> attempt_result (env j) = None)"
    then obtain k b where kb: "1 \<le> k" "k \<le> 5" "attempt_result (env k) = Some b"
        "\<forall>j. 1 \<le> j \<and> j < k \<longrightarrow> attempt_result (env j) = None" by blast
    have "Inr b = (Inr True :: py_error + bool)" using A [OF kb] t by simp
    then have "attempt_result (env k) = Some True" using kb(3) by simp
    then show ?thesis using kb(1,2) by (intro exI [of _ k]) simp
  next
    assume "\<forall>j. 1 \<le> j \<and> j \<le> 5 \<longrightarrow> attempt_result (env j) = None"
    then show ?thesis using B t by simp
  qed
  have A': "\<forall>k b. 1 \<le> k \<and> k \<le> 5 \<and> attempt_result (env k) = Some b
               \<and> (\<forall>j. 1 \<le> j \<and> j < k \<longrightarrow> attempt_result (env j) = None)
         \<longrightarrow> fst (process_order env order w) = Inr b
           \<and> attempts_of (fst (snd (process_order env order w))) = Some (int k)
           \<and> (\<not> b \<and> txt_write (env k) = None \<longrightarrow>
                map_of (fst (snd (process_order env order w))) ''adjustment_status''
                  = Some (VStr ''not_available''))"
  proof (intro allI impI, elim conjE)
    fix k b
    assume "1 \<le> k" "k \<le> 5" "attempt_result (env k) = Some b"
      "\<forall>j. 1 \<le> j \<and> j < k \<longrightarrow> attempt_result (env j) = None"
    then show "fst (process_order env order w) = Inr b
           \<and> attempts_of (fst (snd (process_order env order w))) = Some (int k)
           \<and> (\<not> b \<and> txt_write (env k) = None \<longrightarrow>
                map_of (fst (snd (process_order env order w))) ''adjustment_status''
                  = Some (VStr ''not_available''))"
      by (rule A)
  qed
  have B': "(\<forall>j. 1 \<le> j \<and> j \<le> 5 \<longrightarrow> attempt_result (env j) = None)
         \<longrightarrow> fst (process_order env order w) = Inr False
           \<and> attempts_of (fst (snd (process_order env order w))) = Some 5
           \<and> (details_page (env 5) \<longrightarrow>
                map_of (fst (snd (process_order env order w))) ''adjustment_status''
                  = Some (VStr ''failed''))"
    by (rule impI) (rule B)
  have D': "fst (process_order env order w) = Inr True
         \<longrightarrow> (\<exists>k. 1 \<le> k \<and> k \<le> 5 \<and> attempt_result (env k) = Some True)"
    by (rule impI) (rule D)
  show ?thesis
    by (rule conjI [OF C conjI [OF A' conjI [OF B' D']]])
qed

theorem process_order_attempts_witness:
  "has_id sample_order
   \<and> attempt_result env_refused = Some False
   \<and> fst (process_order (\<lambda>k. env_refused) sample_order empty_world) = Inr False
   \<and> attempts_of (fst (snd (process_order (\<lambda>k. env_refused) sample_order empty_world))) = Some 1
   \<and> map_of (fst (snd (process_order (\<lambda>k. env_refused) sample_order empty_world))) ''adjustment_status''
       = Some (VStr ''not_available'')"
proof -
  have h: "has_id sample_order" by code_simp
  have r: "attempt_result env_refused = Some False" by code_simp
  have t: "txt_write env_refused = None" by code_simp
  note p = process_order_attempts [OF h, of "\<lambda>k. env_refused" empty_world]
  have "1 \<le> (1::nat) \<and> (1::nat) \<le> 5 \<and> attempt_result ((\<lambda>k. env_refused) (1::nat)) = Some False
        \<and> (\<forall>j. 1 \<le> j \<and> j < (1::nat) \<longrightarrow> attempt_result ((\<lambda>k. env_refused) j) = None)"
    using r by simp
  then have "fst (process_order (\<lambda>k. env_refused) sample_order empty_world) = Inr False
           \<and> attempts_of (fst (snd (process_order (\<lambda>k. env_refused) sample_order empty_world))) = Some (int 1)
           \<and> (\<not> False \<and> txt_write ((\<lambda>k. env_refused) (1::nat)) = None \<longrightarrow>
                map_of (fst (snd (process_order (\<lambda>k. env_refused) sample_order empty_world))) ''adjustment_status''
                  = Some (VStr ''not_available''))"
    using p by blast
  then show ?thesis using h r t by simp
qed

section \<open>Properties of \<open>process_orders\<close>\<close>

text \<open>The orders the list comprehension keeps.\<close>

definition is_valid :: "pydict \<Rightarrow> bool" where
  "is_valid order = (case map_of order ''valid'' of Some v \<Rightarrow> truthy v | None \<Rightarrow> False)"

lemma load_all_orders_ends:
  assumes "\<not> present k"
  shows "j \<le> k \<Longrightarrow> \<exists>n. load_all_orders present j = Some n"
proof (induction "k - j" arbitrary: j)
  case 0
  then have "j = k" by simp
  then show ?case using assms by (subst load_all_orders.simps) simp
next
  case (Suc m)
  then have "m = k - Suc j" "Suc j \<le> k" by auto
  then obtain n where "load_all_orders present (Suc j) = Some n" using Suc.hyps(1) by blast
  then show ?case by (subst load_all_orders.simps) simp
qed

lemma select_valid_filter:
  "select_valid orders = Inr vs \<Longrightarrow> vs = filter is_valid orders"
proof (induction orders arbitrary: vs)
  case Nil
  then show ?case by simp
next
  case (Cons a orders)
  then show ?case
    by (auto simp: is_valid_def bind_err_def split: option.splits sum.splits if_splits)
qed

lemma process_batch_trace:
  "process_batch env i os w = (r, trace, w') \<Longrightarrow>
     prefix (map fst trace) os \<and> (r = None \<longrightarrow> map fst trace = os)"
proof (induction os arbitrary: i w r trace w')
  case Nil
  then show ?case by simp
next
  case (Cons a os)
  define w1 where "w1 = w\<lparr>stats := (stats w)\<lparr>processed := processed (stats w) + 1\<rparr>\<rparr>"
  show ?case
  proof (cases "log_order a")
    case (Some err)
    then have "process_batch env i (a # os) w = (Some err, [], w1)"
      by (simp add: Let_def w1_def)
    then have "r = Some err" "trace = []" using Cons.prems by simp_all
    then show ?thesis by simp
  next
    case None
    obtain res a' w2 where po: "process_order (env i) a w1 = (res, a', w2)"
      by (metis prod_cases3)
    show ?thesis
    proof (cases res)
      case (Inl err)
      then show ?thesis using Cons.prems None po by (auto simp: Let_def w1_def)
    next
      case (Inr ok)
      obtain r2 tr2 w3 where pb: "process_batch env (Suc i) os w2 = (r2, tr2, w3)"
        by (metis prod_cases3)
      have ih: "prefix (map fst tr2) os \<and> (r2 = None \<longrightarrow> map fst tr2 = os)"
        using Cons.IH [OF pb] .
      have "r = r2" "trace = (a, a', Inr ok) # tr2"
        using Cons.prems None po Inr pb by (auto simp: Let_def w1_def)
      then show ?thesis using ih by simp
    qed
  qed
qed

text \<open>
  Claim C9. When the loading loop ends, \<open>process_orders\<close> returns, and \<open>process_order\<close> has
  been called on at most ten orders: on a prefix of the first \<open>min(10, number of valid
  orders)\<close> valid orders, and on all of them when the run returns \<open>True\<close>. No later order is
  attempted.
\<close>

theorem process_orders_at_most_ten:
  assumes "\<not> present k"
  shows "\<exists>ret trace w'. process_orders present orders env w = Some (ret, trace, w')
     \<and> length trace \<le> 10
     \<and> prefix (map fst trace) (take (min 10 (length (filter is_valid orders))) (filter is_valid orders))
     \<and> (ret \<longrightarrow> map fst trace = take (min 10 (length (filter is_valid orders))) (filter is_valid orders))"
proof -
  obtain clicks where l: "load_all_orders present 0 = Some clicks"
    using load_all_orders_ends [of present k 0, OF assms] by auto
  define sel where "sel = take (min 10 (length (filter is_valid orders))) (filter is_valid orders)"
  have len: "length sel \<le> 10" by (simp add: sel_def)
  have "\<exists>ret trace w'. process_orders present orders env w = Some (ret, trace, w')
     \<and> prefix (map fst trace) sel \<and> (ret \<longrightarrow> map fst trace = sel)"
  proof (cases "orders = []")
    case True
    then have "process_orders present orders env w = Some (True, [], w)" and "sel = []"
      using l by (simp_all add: process_orders_def sel_def)
    then show ?thesis by auto
  next
    case False
    define w1 where "w1 = w\<lparr>stats := (stats w)\<lparr>total_orders := int (length orders)\<rparr>\<rparr>"
    show ?thesis
    proof (cases "select_valid orders")
      case (Inl err)
      then have "process_orders present orders env w = Some (False, [], w1)"
        using l False by (simp add: process_orders_def Let_def w1_def)
      then show ?thesis by auto
    next
      case (Inr valids)
      have v: "valids = filter is_valid orders" using select_valid_filter [OF Inr] .
      define w2 where "w2 = w1\<lparr>stats := (stats w1)\<lparr>valid_orders := int (length valids)\<rparr>\<rparr>"
      have s: "take (nat (min 10 (int (length valids)))) valids = sel"
        by (simp add: sel_def v min_def)
      obtain r trace w3 where pb: "process_batch env 1 sel w2 = (r, trace, w3)"
        by (metis prod_cases3)
      have tr: "prefix (map fst trace) sel \<and> (r = None \<longrightarrow> map fst trace = sel)"
        using process_batch_trace [OF pb] .
      have "process_orders present orders env w = Some (r = None, trace, w3)"
        using l False Inr pb s
        by (cases r) (simp_all add: process_orders_def Let_def w1_def[symmetric] w2_def[symmetric])
      then show ?thesis using tr by auto
    qed
  qed
  then obtain ret trace w' where p: "process_orders present orders env w = Some (ret, trace, w')"
    and pre: "prefix (map fst trace) sel" and eq: "ret \<longrightarrow> map fst trace = sel" by blast
  have "length (map fst trace) \<le> length sel" using pre by (rule prefix_length_le)
  then have "length trace \<le> 10" using len by simp
  then show ?thesis using p pre eq unfolding sel_def by blast
qed

end
